theory Spec2Isabelle
  imports Main "HOL-Library.Word" "HOL-Library.Multiset"
begin

unbundle bit_operations_syntax

section \<open>The persistence layer of txdb.cpp\<close>

text \<open>
  A shallow embedding of \<^verbatim>\<open>src/txdb.cpp\<close>: the UTXO store (\<^verbatim>\<open>CCoinsViewDB\<close>), the
  block index store (\<^verbatim>\<open>CBlockTreeDB\<close>) and the balance index (\<^verbatim>\<open>CBalanceViewDB\<close>).
  Every C++ member function becomes a HOL function that takes the state it reads and
  returns the state it leaves; out-parameters are returned next to the result, and a
  crash or an exception that leaves a function is a result of its own.
  Log lines and the \<^verbatim>\<open>std::cout\<close> traces of \<^verbatim>\<open>UpdateBalance\<close> are not modelled.
\<close>

subsection \<open>Scalar types and key tags\<close>

type_synonym uint256 = "256 word"

text \<open>\<^verbatim>\<open>CAmount\<close> is \<^verbatim>\<open>int64_t\<close>: a 64-bit word, read as two's complement by \<open>sint\<close>.\<close>

type_synonym CAmount = "64 word"

type_synonym CScript = string

definition DB_COINS :: char where "DB_COINS = CHR ''c''"
definition DB_BLOCK_FILES :: char where "DB_BLOCK_FILES = CHR ''f''"
definition DB_TXINDEX :: char where "DB_TXINDEX = CHR ''t''"
definition DB_BLOCK_INDEX :: char where "DB_BLOCK_INDEX = CHR ''b''"
definition DB_BEST_BLOCK :: char where "DB_BEST_BLOCK = CHR ''B''"
definition DB_FLAG :: char where "DB_FLAG = CHR ''F''"
definition DB_REINDEX_FLAG :: char where "DB_REINDEX_FLAG = CHR ''R''"
definition DB_LAST_BLOCK :: char where "DB_LAST_BLOCK = CHR ''l''"

subsection \<open>Coins records and the coins cache\<close>

text \<open>
  Modelled from the spec: the class \<^verbatim>\<open>CTxOut\<close> (declared in
  \<^verbatim>\<open>primitives/transaction.h\<close>, outside \<^verbatim>\<open>txdb.cpp\<close>): an output is a value and a
  spending script.
\<close>

record CTxOut =
  nValue :: CAmount
  scriptPubKey :: CScript

text \<open>
  Modelled from the spec: the class \<^verbatim>\<open>CCoins\<close> (declared in \<^verbatim>\<open>coins.h\<close>, outside
  \<^verbatim>\<open>txdb.cpp\<close>): a coins record holds the output list of a transaction and a coinbase
  flag. The field \<^verbatim>\<open>vout\<close> is called \<open>coins_vout\<close>. \<^verbatim>\<open>CCoins::IsPruned\<close> is a parameter
  of \<^verbatim>\<open>BatchWrite\<close>.
\<close>

record CCoins =
  fCoinBase :: bool
  coins_vout :: "CTxOut list"

text \<open>
  Modelled from the spec: the class \<^verbatim>\<open>CCoinsCacheEntry\<close> (declared in \<^verbatim>\<open>coins.h\<close>): a
  diff entry wraps a coins record with flags.
\<close>

record CCoinsCacheEntry =
  coins :: CCoins
  flags :: "8 word"

text \<open>
  Modelled from the spec: the flag \<^verbatim>\<open>CCoinsCacheEntry::DIRTY\<close> (declared in \<^verbatim>\<open>coins.h\<close>):
  the dirty flag of a diff entry, one bit of \<^verbatim>\<open>flags\<close>.
\<close>

definition DIRTY :: "8 word" where "DIRTY = 1"

text \<open>
  Modelled from the spec: the flag \<^verbatim>\<open>CCoinsCacheEntry::FRESH\<close> (declared in \<^verbatim>\<open>coins.h\<close>):
  the fresh flag of a diff entry, another bit of \<^verbatim>\<open>flags\<close>.
\<close>

definition FRESH :: "8 word" where "FRESH = 2"

text \<open>
  \<^verbatim>\<open>CCoinsMap\<close> is an unordered map; the list gives its entries in the order in which
  the iterator of \<^verbatim>\<open>BatchWrite\<close> visits them.
\<close>

type_synonym CCoinsMap = "(uint256 \<times> CCoinsCacheEntry) list"

subsection \<open>The key-value wrapper\<close>

text \<open>
  \<^verbatim>\<open>CDBWrapper\<close> and \<^verbatim>\<open>CDBBatch\<close> are declared in \<^verbatim>\<open>dbwrapper.h\<close>, outside
  \<^verbatim>\<open>txdb.cpp\<close>; the definitions of this subsection follow the specification.
\<close>

text \<open>
  Modelled from the spec: the keys that \<^verbatim>\<open>CDBWrapper\<close> serialises: a key is a one-byte
  tag identifying the record family, alone or followed by a hash or a name.
\<close>

datatype db_key = Key char | KeyHash char uint256 | KeyName char string

text \<open>
  Modelled from the spec: the values that \<^verbatim>\<open>CDBWrapper\<close> serialises, by the type that
  was written: a coins record, a hash or a single byte.
\<close>

datatype db_value = ValCoins CCoins | ValHash uint256 | ValChar char

text \<open>
  Modelled from the spec: the class \<^verbatim>\<open>CDBBatch\<close>: a batch groups upserts
  (\<^verbatim>\<open>batch.Write\<close>) and deletes (\<^verbatim>\<open>batch.Erase\<close>), in the order in which they were added.
\<close>

datatype batch_entry = Write db_key db_value | Erase db_key

type_synonym CDBBatch = "batch_entry list"

text \<open>
  Modelled from the spec: the store behind \<^verbatim>\<open>CDBWrapper\<close>, a set of records with point
  reads by key.
\<close>

type_synonym CDBWrapper = "db_key \<rightharpoonup> db_value"

text \<open>Modelled from the spec: the effect of one upsert or delete of a batch on the store.\<close>

fun apply_entry :: "CDBWrapper \<Rightarrow> batch_entry \<Rightarrow> CDBWrapper" where
  "apply_entry db (Write k v) = db(k \<mapsto> v)"
| "apply_entry db (Erase k) = db(k := None)"

text \<open>
  Modelled from the spec: \<^verbatim>\<open>CDBWrapper::WriteBatch\<close>: the batch is applied to the engine
  as a single atomic unit, all of its effects on success and none on failure. Whether
  the engine commits is its own matter: the flag \<open>commit_ok\<close> is the outcome that
  it reports.
\<close>

definition WriteBatch :: "bool \<Rightarrow> CDBWrapper \<Rightarrow> CDBBatch \<Rightarrow> bool \<times> CDBWrapper" where
  "WriteBatch commit_ok db batch =
     (if commit_ok then (True, foldl apply_entry db batch) else (False, db))"

text \<open>
  Modelled from the spec: \<^verbatim>\<open>CDBWrapper::Read\<close> into a hash: a point read, which fails
  when the key is absent and when the stored bytes are not those of a hash.
\<close>

definition Read_hash :: "CDBWrapper \<Rightarrow> db_key \<Rightarrow> uint256 option" where
  "Read_hash db k = (case db k of Some (ValHash h) \<Rightarrow> Some h | _ \<Rightarrow> None)"

text \<open>
  Modelled from the spec: \<^verbatim>\<open>CDBWrapper::Read\<close> into a \<^verbatim>\<open>char\<close>: a point read, which fails
  when the key is absent and when the stored bytes are not a single byte.
\<close>

definition Read_char :: "CDBWrapper \<Rightarrow> db_key \<Rightarrow> char option" where
  "Read_char db k = (case db k of Some (ValChar c) \<Rightarrow> Some c | _ \<Rightarrow> None)"

subsection \<open>CCoinsViewDB\<close>

definition GetBestBlock :: "CDBWrapper \<Rightarrow> uint256" where
  "GetBestBlock db =
     (case Read_hash db (Key DB_BEST_BLOCK) of
        None \<Rightarrow> 0
      | Some hashBestChain \<Rightarrow> hashBestChain)"

text \<open>
  The loop of \<^verbatim>\<open>BatchWrite\<close>. Each round looks at the entry under the iterator, adds
  to the batch when the entry is dirty, and erases the entry from \<^verbatim>\<open>mapCoins\<close>; the
  first component of the result is what is left of \<^verbatim>\<open>mapCoins\<close> when the loop ends.
  The counters \<^verbatim>\<open>count\<close> (here \<open>counted\<close>) and \<^verbatim>\<open>changed\<close> only feed the log line.
\<close>

fun BatchWrite_loop ::
  "(CCoins \<Rightarrow> bool) \<Rightarrow> CCoinsMap \<Rightarrow> CDBBatch \<Rightarrow> nat \<Rightarrow> nat \<Rightarrow> CCoinsMap \<times> CDBBatch \<times> nat \<times> nat"
where
  "BatchWrite_loop IsPruned [] batch counted changed = ([], batch, counted, changed)"
| "BatchWrite_loop IsPruned ((txid, entry) # rest) batch counted changed =
     (if flags entry AND DIRTY \<noteq> 0 then
        BatchWrite_loop IsPruned rest
          (if IsPruned (coins entry)
           then batch @ [Erase (KeyHash DB_COINS txid)]
           else batch @ [Write (KeyHash DB_COINS txid) (ValCoins (coins entry))])
          (counted + 1) (changed + 1)
      else BatchWrite_loop IsPruned rest batch (counted + 1) changed)"

text \<open>The batch that \<^verbatim>\<open>BatchWrite\<close> hands to \<^verbatim>\<open>db.WriteBatch\<close>, and \<^verbatim>\<open>mapCoins\<close> then.\<close>

definition BatchWrite_batch ::
  "(CCoins \<Rightarrow> bool) \<Rightarrow> CCoinsMap \<Rightarrow> uint256 \<Rightarrow> CCoinsMap \<times> CDBBatch"
where
  "BatchWrite_batch IsPruned mapCoins hashBlock =
     (case BatchWrite_loop IsPruned mapCoins [] 0 0 of
        (mapCoins', batch, counted, changed) \<Rightarrow>
          (mapCoins',
           if hashBlock \<noteq> 0 then batch @ [Write (Key DB_BEST_BLOCK) (ValHash hashBlock)]
           else batch))"

text \<open>The result: the value returned, the store and \<^verbatim>\<open>mapCoins\<close> after the call.\<close>

definition BatchWrite ::
  "(CCoins \<Rightarrow> bool) \<Rightarrow> bool \<Rightarrow> CDBWrapper \<Rightarrow> CCoinsMap \<Rightarrow> uint256
     \<Rightarrow> bool \<times> CDBWrapper \<times> CCoinsMap"
where
  "BatchWrite IsPruned commit_ok db mapCoins hashBlock =
     (case BatchWrite_batch IsPruned mapCoins hashBlock of
        (mapCoins', batch) \<Rightarrow>
          (case WriteBatch commit_ok db batch of
             (ok, db') \<Rightarrow> (ok, db', mapCoins')))"

subsection \<open>CBlockTreeDB: named flags\<close>

text \<open>
  \<^verbatim>\<open>CDBWrapper::Write\<close> is the commit of a batch of one upsert. \<^verbatim>\<open>ReadFlag\<close> returns
  its result and the out-parameter \<^verbatim>\<open>fValue\<close>, which a failed read leaves as the caller
  passed it.
\<close>

definition WriteFlag :: "bool \<Rightarrow> CDBWrapper \<Rightarrow> string \<Rightarrow> bool \<Rightarrow> bool \<times> CDBWrapper" where
  "WriteFlag commit_ok db name fValue =
     WriteBatch commit_ok db
       [Write (KeyName DB_FLAG name) (ValChar (if fValue then CHR ''1'' else CHR ''0''))]"

definition ReadFlag :: "CDBWrapper \<Rightarrow> string \<Rightarrow> bool \<Rightarrow> bool \<times> bool" where
  "ReadFlag db name fValue =
     (case Read_char db (KeyName DB_FLAG name) of
        None \<Rightarrow> (False, fValue)
      | Some ch \<Rightarrow> (True, ch = CHR ''1''))"

subsection \<open>The balance index: the engine and the decimal encoding\<close>

text \<open>
  The balance index talks to the key-value engine directly (\<^verbatim>\<open>pdb->Put\<close>,
  \<^verbatim>\<open>pdb->Get\<close>); the engine is a library outside \<^verbatim>\<open>txdb.cpp\<close>, and the definitions that
  model it follow the specification.
\<close>

text \<open>
  Modelled from the spec: the statuses of the engine (\<^verbatim>\<open>leveldb::Status\<close>) that are
  neither ok nor not-found, the engine faults: corrupted data, an operation that is not
  supported, an invalid argument, an I/O error.
\<close>

datatype fault = Corruption | NotSupported | InvalidArgument | IOError

text \<open>
  Modelled from the spec: the outcome of a point read of the engine
  (\<^verbatim>\<open>leveldb::Status\<close> and the bytes read): status ok with the stored bytes, status
  not-found, or an engine fault.
\<close>

datatype get_result = Found string | NotFound | Fault fault

text \<open>
  Modelled from the spec: the engine \<^verbatim>\<open>leveldb::DB\<close>: what a read of each key answers,
  and, since which writes fail is the engine's matter, the statuses of the writes
  to come, in order: \<open>None\<close> is ok, \<open>Some status\<close> is the fault that the engine
  reports (ok when the list is exhausted).
\<close>

record leveldb =
  table :: "string \<Rightarrow> get_result"
  put_outcomes :: "fault option list"

text \<open>Modelled from the spec: \<^verbatim>\<open>leveldb::DB::Get\<close>, the point read of a key.\<close>

definition Get :: "leveldb \<Rightarrow> string \<Rightarrow> get_result" where
  "Get db k = table db k"

text \<open>
  Modelled from the spec: \<^verbatim>\<open>leveldb::DB::Put\<close>, the point write: it ends with status
  ok, and then a read of the key answers the bytes written, or with a fault, and
  then the table is as before. The first component is the status: \<open>None\<close> is ok.
\<close>

definition Put :: "string \<Rightarrow> string \<Rightarrow> leveldb \<Rightarrow> fault option \<times> leveldb" where
  "Put k v db =
     (case put_outcomes db of
        [] \<Rightarrow> (None, db\<lparr>table := (table db)(k := Found v)\<rparr>)
      | outcome # later \<Rightarrow>
          (case outcome of
             None \<Rightarrow> (None, db\<lparr>table := (table db)(k := Found v), put_outcomes := later\<rparr>)
           | Some status \<Rightarrow> (Some status, db\<lparr>put_outcomes := later\<rparr>)))"

text \<open>
  \<^verbatim>\<open>ss << i; ss >> str\<close> on a fresh \<^verbatim>\<open>std::stringstream\<close>: the decimal digits of a
  signed integer, with a minus sign when it is negative.
\<close>

definition digit_char :: "nat \<Rightarrow> char" where
  "digit_char d = ''0123456789'' ! (d mod 10)"

fun digits :: "nat \<Rightarrow> string" where
  "digits n = (if n < 10 then [digit_char n] else digits (n div 10) @ [digit_char (n mod 10)])"

declare digits.simps [simp del]

definition int_to_stream :: "int \<Rightarrow> string" where
  "int_to_stream i = (if i < 0 then CHR ''-'' # digits (nat (- i)) else digits (nat i))"

text \<open>
  \<^verbatim>\<open>std::istringstream ss(str); ss >> value\<close> for a 64-bit signed \<^verbatim>\<open>value\<close>: leading
  white space is skipped; when the input ends there, nothing is extracted and \<^verbatim>\<open>value\<close>
  stays as it was (the second argument). Otherwise an optional sign and then the
  longest run of decimal digits is read: with no digit the value is 0, and a number
  out of range gives the nearest bound.
\<close>

definition digit_val :: "char \<Rightarrow> nat option" where
  "digit_val = map_of
     [(CHR ''0'', 0), (CHR ''1'', 1), (CHR ''2'', 2), (CHR ''3'', 3), (CHR ''4'', 4),
      (CHR ''5'', 5), (CHR ''6'', 6), (CHR ''7'', 7), (CHR ''8'', 8), (CHR ''9'', 9)]"

definition isspace :: "char \<Rightarrow> bool" where
  "isspace c = (c = CHR '' '' \<or> c = CHR 0x09 \<or> c = CHR 0x0A \<or> c = CHR 0x0B
                 \<or> c = CHR 0x0C \<or> c = CHR 0x0D)"

fun accumulate :: "nat \<Rightarrow> string \<Rightarrow> nat" where
  "accumulate a [] = a"
| "accumulate a (c # cs) =
     (case digit_val c of None \<Rightarrow> a | Some d \<Rightarrow> accumulate (10 * a + d) cs)"

definition stream_to_int64 :: "string \<Rightarrow> CAmount \<Rightarrow> CAmount" where
  "stream_to_int64 str val =
     (case dropWhile isspace str of
        [] \<Rightarrow> val
      | c # cs \<Rightarrow>
          let negative = (c = CHR ''-'');
              u = (if c = CHR ''-'' \<or> c = CHR ''+'' then cs else c # cs)
          in case u of
               [] \<Rightarrow> 0
             | d # ds \<Rightarrow>
                 if digit_val d = None then 0
                 else
                   let m = int (accumulate 0 u);
                       v = (if negative then - m else m)
                   in if v > 2 ^ 63 - 1 then word_of_int (2 ^ 63 - 1)
                      else if v < - (2 ^ 63) then word_of_int (- (2 ^ 63))
                      else word_of_int v)"

subsection \<open>CBalanceViewDB\<close>

text \<open>
  The state of the balance index: the cache \<^verbatim>\<open>cacheBalance\<close> and the engine \<^verbatim>\<open>pdb\<close>.
  Heights are \<^verbatim>\<open>int\<close> in the code; they are integers here, and the code's
  \<^verbatim>\<open>nHeight - 1\<close> is read without overflow (it overflows for the least \<^verbatim>\<open>int\<close> only).
\<close>

record CBalanceViewDB =
  cacheBalance :: "string \<rightharpoonup> CAmount"
  pdb :: leveldb

text \<open>
  \<^verbatim>\<open>WriteDB\<close> and \<^verbatim>\<open>ReadDB\<close> hand a status that is a fault to
  \<^verbatim>\<open>dbwrapper_private::HandleError\<close>, a function of \<^verbatim>\<open>dbwrapper.cpp\<close>, outside
  \<^verbatim>\<open>txdb.cpp\<close>. It returns nothing, so all that bears on its caller is whether it comes
  back; it is a parameter of every function that reaches it: \<open>HandleError status\<close> holds
  when the call with \<open>status\<close> throws, and then the exception leaves \<^verbatim>\<open>WriteDB\<close> or
  \<^verbatim>\<open>ReadDB\<close> and their callers, none of which catches it.
\<close>

text \<open>
  \<^verbatim>\<open>WriteDB\<close>: next to the engine it leaves, \<open>Inr True\<close> and \<open>Inr False\<close> are the values
  returned, and \<open>Inl status\<close> is the exception that \<^verbatim>\<open>HandleError\<close> throws for \<open>status\<close>.
\<close>

definition WriteDB ::
  "(fault \<Rightarrow> bool) \<Rightarrow> string \<Rightarrow> int \<Rightarrow> CAmount \<Rightarrow> leveldb \<Rightarrow> (fault + bool) \<times> leveldb"
where
  "WriteDB HandleError key height val db =
     (let strValue = int_to_stream (sint val);
          strHeight = int_to_stream height
      in case Put (key @ ''_'' @ strHeight) strValue db of
           (None, db') \<Rightarrow> (Inr True, db')
         | (Some status, db') \<Rightarrow>
             if HandleError status then (Inl status, db') else (Inr False, db'))"

text \<open>
  \<^verbatim>\<open>ReadDB\<close> returns its result and the out-parameter \<^verbatim>\<open>value\<close>, which a fault leaves
  as the caller passed it; \<open>Inl status\<close> is the exception that \<^verbatim>\<open>HandleError\<close> throws
  for \<open>status\<close>.
\<close>

definition ReadDB ::
  "(fault \<Rightarrow> bool) \<Rightarrow> leveldb \<Rightarrow> string \<Rightarrow> int \<Rightarrow> CAmount \<Rightarrow> fault + bool \<times> CAmount"
where
  "ReadDB HandleError db key height val =
     (let strHeight = int_to_stream height
      in case Get db (key @ ''_'' @ strHeight) of
           Found strValue \<Rightarrow> Inr (True, stream_to_int64 strValue val)
         | NotFound \<Rightarrow> Inr (False, 0)
         | Fault status \<Rightarrow> if HandleError status then Inl status else Inr (False, val))"

text \<open>
  The loop of \<^verbatim>\<open>GetBalance\<close>: \<^verbatim>\<open>for (int h = nHeight; h >= 0; h--)\<close>. An exception of
  \<^verbatim>\<open>ReadDB\<close> leaves the loop and the function.
\<close>

function GetBalance_scan :: "(fault \<Rightarrow> bool) \<Rightarrow> leveldb \<Rightarrow> string \<Rightarrow> int \<Rightarrow> fault + CAmount" where
  "GetBalance_scan HandleError db address h =
     (if h \<ge> 0 then
        (case ReadDB HandleError db address h 0 of
           Inl status \<Rightarrow> Inl status
         | Inr r \<Rightarrow>
             if fst r then Inr (snd r)
             else GetBalance_scan HandleError db address (h - 1))
      else Inr 0)"
  by pat_completeness auto
termination
  by (relation "measure (\<lambda>(HandleError, db, address, h). nat (h + 1))") auto

declare GetBalance_scan.simps [simp del]

definition GetBalance ::
  "(fault \<Rightarrow> bool) \<Rightarrow> CBalanceViewDB \<Rightarrow> string \<Rightarrow> int \<Rightarrow> fault + CAmount" where
  "GetBalance HandleError st address height =
     (case cacheBalance st address of
        Some amount \<Rightarrow> Inr amount
      | None \<Rightarrow> GetBalance_scan HandleError (pdb st) address height)"

text \<open>
  Modelled from the spec: the class \<^verbatim>\<open>CTxIn\<close> (declared in
  \<^verbatim>\<open>primitives/transaction.h\<close>): an input names the output it spends by transaction id
  and output index; \<^verbatim>\<open>prevout.hash\<close> and \<^verbatim>\<open>prevout.n\<close> are the fields \<open>prevout_hash\<close> and
  \<open>prevout_n\<close>.
\<close>

record CTxIn =
  prevout_hash :: uint256
  prevout_n :: "32 word"

text \<open>
  Modelled from the spec: the class \<^verbatim>\<open>CTransaction\<close> (declared in
  \<^verbatim>\<open>primitives/transaction.h\<close>): a transaction has a list of inputs and a list of
  outputs.
\<close>

record CTransaction =
  vin :: "CTxIn list"
  vout :: "CTxOut list"

text \<open>
  The UTXO view \<^verbatim>\<open>inputs\<close> is a map from transaction ids to coins records
  (\<^verbatim>\<open>AccessCoins\<close> returns a null pointer where the view has no entry).
  \<^verbatim>\<open>CBitcoinAddress::ScriptPub2Addr\<close> and \<^verbatim>\<open>CTransaction::IsCoinBase\<close> are parameters of
  \<^verbatim>\<open>UpdateBalance\<close>: \<open>ScriptPub2Addr script\<close> is the string that the call leaves in its
  out-parameter \<^verbatim>\<open>address\<close> (the code ignores its return value).
\<close>

text \<open>
  Where the code stops without returning: \<^verbatim>\<open>assert(coins)\<close> on a null pointer,
  \<^verbatim>\<open>coins->vout[n]\<close> with \<^verbatim>\<open>n\<close> past the end of the vector, and (in the block index
  loader) a write through a pointer that is null or points to no node.
\<close>

datatype crash = AssertionFailed | OutOfRange | BadPointer

text \<open>
  How \<^verbatim>\<open>UpdateBalance\<close> ends when it does not return: with a crash, or with the
  exception that \<^verbatim>\<open>HandleError\<close> throws for a status, which leaves the cache and the
  engine as they are at that moment.
\<close>

datatype stopped = Crash crash | Throw fault CBalanceViewDB

text \<open>
  The loop over \<^verbatim>\<open>tx.vin\<close>. \<open>Inr (False, st)\<close>: the function has returned false;
  \<open>Inr (True, st)\<close>: the loop is through.
\<close>

fun UpdateBalance_vin ::
  "(fault \<Rightarrow> bool) \<Rightarrow> (CScript \<Rightarrow> string) \<Rightarrow> (uint256 \<rightharpoonup> CCoins) \<Rightarrow> int \<Rightarrow> CTxIn list
     \<Rightarrow> CBalanceViewDB \<Rightarrow> stopped + bool \<times> CBalanceViewDB"
where
  "UpdateBalance_vin HandleError ScriptPub2Addr inputs height [] st = Inr (True, st)"
| "UpdateBalance_vin HandleError ScriptPub2Addr inputs height (txin # rest) st =
     (case inputs (prevout_hash txin) of
        None \<Rightarrow> Inl (Crash AssertionFailed)
      | Some pcoins \<Rightarrow>
          if \<not> unat (prevout_n txin) < length (coins_vout pcoins) then Inl (Crash OutOfRange)
          else
            let out = coins_vout pcoins ! unat (prevout_n txin);
                address = ScriptPub2Addr (scriptPubKey out)
            in if height > 0 then
                 (case GetBalance HandleError st address (height - 1) of
                    Inl status \<Rightarrow> Inl (Throw status st)
                  | Inr before \<Rightarrow>
                      let val = before - nValue out;
                          st1 = st\<lparr>cacheBalance := (cacheBalance st)(address \<mapsto> val)\<rparr>;
                          w = WriteDB HandleError address height val (pdb st1)
                      in (case fst w of
                            Inl status \<Rightarrow> Inl (Throw status (st1\<lparr>pdb := snd w\<rparr>))
                          | Inr written \<Rightarrow>
                              if \<not> written then Inr (False, st1\<lparr>pdb := snd w\<rparr>)
                              else UpdateBalance_vin HandleError ScriptPub2Addr inputs height
                                     rest (st1\<lparr>pdb := snd w\<rparr>)))
               else UpdateBalance_vin HandleError ScriptPub2Addr inputs height rest st)"

text \<open>The loop over \<^verbatim>\<open>tx.vout\<close>; the boolean is the value that \<^verbatim>\<open>UpdateBalance\<close> returns.\<close>

fun UpdateBalance_vout ::
  "(fault \<Rightarrow> bool) \<Rightarrow> (CScript \<Rightarrow> string) \<Rightarrow> int \<Rightarrow> CTxOut list \<Rightarrow> CBalanceViewDB
     \<Rightarrow> stopped + bool \<times> CBalanceViewDB"
where
  "UpdateBalance_vout HandleError ScriptPub2Addr height [] st = Inr (True, st)"
| "UpdateBalance_vout HandleError ScriptPub2Addr height (out # rest) st =
     (if sint (nValue out) \<le> 0
      then UpdateBalance_vout HandleError ScriptPub2Addr height rest st
      else
        let address = ScriptPub2Addr (scriptPubKey out)
        in (case GetBalance HandleError st address (height - 1) of
              Inl status \<Rightarrow> Inl (Throw status st)
            | Inr before \<Rightarrow>
                let val = before + nValue out;
                    st1 = st\<lparr>cacheBalance := (cacheBalance st)(address \<mapsto> val)\<rparr>;
                    w = WriteDB HandleError address height val (pdb st1)
                in (case fst w of
                      Inl status \<Rightarrow> Inl (Throw status (st1\<lparr>pdb := snd w\<rparr>))
                    | Inr written \<Rightarrow>
                        if \<not> written then Inr (False, st1\<lparr>pdb := snd w\<rparr>)
                        else UpdateBalance_vout HandleError ScriptPub2Addr height rest
                               (st1\<lparr>pdb := snd w\<rparr>))))"

definition UpdateBalance ::
  "(fault \<Rightarrow> bool) \<Rightarrow> (CScript \<Rightarrow> string) \<Rightarrow> (CTransaction \<Rightarrow> bool) \<Rightarrow> CTransaction
     \<Rightarrow> (uint256 \<rightharpoonup> CCoins) \<Rightarrow> int \<Rightarrow> CBalanceViewDB \<Rightarrow> stopped + bool \<times> CBalanceViewDB"
where
  "UpdateBalance HandleError ScriptPub2Addr IsCoinBase tx inputs height st =
     (if length (vout tx) > 0 then
        (case (if \<not> IsCoinBase tx \<and> length (vin tx) > 0
               then UpdateBalance_vin HandleError ScriptPub2Addr inputs height (vin tx) st
               else Inr (True, st)) of
           Inl stop \<Rightarrow> Inl stop
         | Inr (through, st1) \<Rightarrow>
             if \<not> through then Inr (False, st1)
             else UpdateBalance_vout HandleError ScriptPub2Addr height (vout tx) st1)
      else Inr (True, st))"

subsection \<open>CBlockTreeDB: loading the block index\<close>

text \<open>
  Modelled from the spec: the class \<^verbatim>\<open>CBlockIndex\<close> (declared in \<^verbatim>\<open>chain.h\<close>, outside
  \<^verbatim>\<open>txdb.cpp\<close>): the in-memory node, with the link to its previous node, the fields
  that \<^verbatim>\<open>LoadBlockIndexGuts\<close> assigns and the derived chain difficulty. A pointer to a
  node is the address of the node in \<open>heap\<close> (\<open>None\<close> is the null pointer). The
  fields are only copied, so 32-bit fields are 32-bit words whatever their sign.
\<close>

record CBlockIndex =
  pprev :: "nat option"
  nHeight :: "32 word"
  nFile :: "32 word"
  nDataPos :: "32 word"
  nUndoPos :: "32 word"
  nVersion :: "32 word"
  hashMerkleRoot :: uint256
  nTime :: "32 word"
  nBits :: "32 word"
  nNonce :: "32 word"
  nStatus :: "32 word"
  nTx :: "32 word"
  baseTarget :: "64 word"
  generationSignature :: uint256
  pubKeyOfpackager :: string
  cumulativeDifficulty :: uint256
  nChainDiff :: uint256

text \<open>
  Modelled from the spec: the class \<^verbatim>\<open>CDiskBlockIndex\<close> (declared in \<^verbatim>\<open>chain.h\<close>): the
  stored node, a \<^verbatim>\<open>CBlockIndex\<close> with the hash of the previous block.
\<close>

record CDiskBlockIndex = CBlockIndex +
  hashPrev :: uint256

text \<open>
  The memory that the loader works on: the nodes allocated so far, and the caller's
  index collection \<^verbatim>\<open>mapBlockIndex\<close> from block hashes to nodes.
\<close>

record block_index =
  heap :: "CBlockIndex list"
  mapBlockIndex :: "uint256 \<rightharpoonup> nat"

text \<open>
  What the cursor shows at one position: the key as \<^verbatim>\<open>GetKey\<close> decodes it into a
  pair of a tag and a hash (\<open>None\<close> when it does not decode so), and the value as
  \<^verbatim>\<open>GetValue\<close> decodes it into a \<open>CDiskBlockIndex\<close> (\<open>None\<close> when that fails).
  The list given to the loader holds the positions from the one that
  \<^verbatim>\<open>Seek(make_pair(DB_BLOCK_INDEX, uint256()))\<close> reaches to the end of the store; the
  cursor is valid as long as the list is not empty.
\<close>

record cursor_entry =
  entry_key :: "(char \<times> uint256) option"
  entry_value :: "CDiskBlockIndex option"

text \<open>
  Modelled from the spec: the empty node that the callback creates on a miss (the
  constructor of \<^verbatim>\<open>CBlockIndex\<close>, declared in \<^verbatim>\<open>chain.h\<close>).
\<close>

definition empty_CBlockIndex :: CBlockIndex where
  "empty_CBlockIndex =
     \<lparr>pprev = None, nHeight = 0, nFile = 0, nDataPos = 0, nUndoPos = 0, nVersion = 0,
      hashMerkleRoot = 0, nTime = 0, nBits = 0, nNonce = 0, nStatus = 0, nTx = 0,
      baseTarget = 0, generationSignature = 0, pubKeyOfpackager = [],
      cumulativeDifficulty = 0, nChainDiff = 0\<rparr>"

text \<open>
  Modelled from the spec: the callback \<^verbatim>\<open>insertBlockIndex\<close> that the caller passes
  (\<^verbatim>\<open>InsertBlockIndex\<close> of \<^verbatim>\<open>main.cpp\<close>, outside \<^verbatim>\<open>txdb.cpp\<close>): a mapping from hash to
  node where lookup creates an empty node on a miss, so that calling it twice with
  the same hash returns the same node.
\<close>

definition InsertBlockIndex :: "uint256 \<Rightarrow> block_index \<Rightarrow> nat option \<times> block_index" where
  "InsertBlockIndex h st =
     (case mapBlockIndex st h of
        Some p \<Rightarrow> (Some p, st)
      | None \<Rightarrow>
          (Some (length (heap st)),
           st\<lparr>heap := heap st @ [empty_CBlockIndex],
              mapBlockIndex := (mapBlockIndex st)(h \<mapsto> length (heap st))\<rparr>))"

text \<open>
  The assignments of the loop body through \<^verbatim>\<open>pindexNew\<close>. \<^verbatim>\<open>GetBlockHash\<close> of the disk
  record and \<^verbatim>\<open>UintToArith256\<close> are parameters of the loader.
\<close>

definition assign_fields ::
  "(uint256 \<Rightarrow> uint256) \<Rightarrow> nat option \<Rightarrow> CDiskBlockIndex \<Rightarrow> CBlockIndex \<Rightarrow> CBlockIndex"
where
  "assign_fields UintToArith256 link diskindex node =
     node\<lparr>pprev := link,
          nHeight := nHeight diskindex,
          nFile := nFile diskindex,
          nDataPos := nDataPos diskindex,
          nUndoPos := nUndoPos diskindex,
          nVersion := nVersion diskindex,
          hashMerkleRoot := hashMerkleRoot diskindex,
          nTime := nTime diskindex,
          nBits := nBits diskindex,
          nNonce := nNonce diskindex,
          nStatus := nStatus diskindex,
          nTx := nTx diskindex,
          baseTarget := baseTarget diskindex,
          generationSignature := generationSignature diskindex,
          pubKeyOfpackager := pubKeyOfpackager diskindex,
          cumulativeDifficulty := cumulativeDifficulty diskindex,
          nChainDiff := UintToArith256 (cumulativeDifficulty diskindex)\<rparr>"

text \<open>
  \<^verbatim>\<open>LoadBlockIndexGuts\<close>: the loop over the cursor. The interruption point of the
  thread library is not modelled.
\<close>

fun LoadBlockIndexGuts ::
  "(uint256 \<Rightarrow> block_index \<Rightarrow> nat option \<times> block_index) \<Rightarrow> (CDiskBlockIndex \<Rightarrow> uint256)
     \<Rightarrow> (uint256 \<Rightarrow> uint256) \<Rightarrow> cursor_entry list \<Rightarrow> block_index
     \<Rightarrow> crash + bool \<times> block_index"
where
  "LoadBlockIndexGuts insertBlockIndex GetBlockHash UintToArith256 [] st = Inr (True, st)"
| "LoadBlockIndexGuts insertBlockIndex GetBlockHash UintToArith256 (e # rest) st =
     (case entry_key e of
        None \<Rightarrow> Inr (True, st)
      | Some key \<Rightarrow>
          if fst key \<noteq> DB_BLOCK_INDEX then Inr (True, st)
          else
            (case entry_value e of
               None \<Rightarrow> Inr (False, st)
             | Some diskindex \<Rightarrow>
                 let r1 = insertBlockIndex (GetBlockHash diskindex) st;
                     pindexNew = fst r1;
                     r2 = insertBlockIndex (hashPrev diskindex) (snd r1);
                     st2 = snd r2
                 in (case pindexNew of
                       None \<Rightarrow> Inl BadPointer
                     | Some p \<Rightarrow>
                         if \<not> p < length (heap st2) then Inl BadPointer
                         else
                           LoadBlockIndexGuts insertBlockIndex GetBlockHash UintToArith256 rest
                             (st2\<lparr>heap := (heap st2)
                                  [p := assign_fields UintToArith256 (fst r2) diskindex
                                          (heap st2 ! p)]\<rparr>))))"

section \<open>The specification's notions\<close>

text \<open>
  The definitions of this section are not translations of code: they say, in the words
  of the specification, what the functions above are compared with.
\<close>

subsection \<open>Draining the coins diff\<close>

text \<open>
  The drain rule: an entry is dirty when its dirty bit is set; a dirty entry with a
  pruned coins record becomes a delete of the coins key of its transaction id, a dirty
  entry with any other record becomes an upsert of the record under that key.
\<close>

definition is_dirty :: "uint256 \<times> CCoinsCacheEntry \<Rightarrow> bool" where
  "is_dirty e = (flags (snd e) AND DIRTY \<noteq> 0)"

definition drain_op :: "(CCoins \<Rightarrow> bool) \<Rightarrow> uint256 \<times> CCoinsCacheEntry \<Rightarrow> batch_entry" where
  "drain_op IsPruned e =
     (if IsPruned (coins (snd e)) then Erase (KeyHash DB_COINS (fst e))
      else Write (KeyHash DB_COINS (fst e)) (ValCoins (coins (snd e))))"

text \<open>
  A sequence of flushes, each with the outcome of its commit, the diff and the
  best-block hash supplied; the result is the store after the last one.
\<close>

definition flush_all ::
  "(CCoins \<Rightarrow> bool) \<Rightarrow> CDBWrapper \<Rightarrow> (bool \<times> CCoinsMap \<times> uint256) list \<Rightarrow> CDBWrapper" where
  "flush_all IsPruned db calls =
     foldl (\<lambda>d (commit_ok, mapCoins, hashBlock).
              fst (snd (BatchWrite IsPruned commit_ok d mapCoins hashBlock))) db calls"

text \<open>A sequence of \<^verbatim>\<open>WriteFlag\<close> calls, each with the outcome of its commit.\<close>

definition flag_writes :: "CDBWrapper \<Rightarrow> (bool \<times> string \<times> bool) list \<Rightarrow> CDBWrapper" where
  "flag_writes db calls =
     foldl (\<lambda>d (commit_ok, name, fValue). snd (WriteFlag commit_ok d name fValue)) db calls"

subsection \<open>Balance records\<close>

text \<open>
  The record that a read of \<open>(address, height)\<close> finds: the stored string when the
  engine answers ok, none when it answers not-found and none when it faults.
  \<open>recorded_heights\<close> are the heights from 0 to \<open>height\<close> that have such a record,
  and \<open>latest_balance\<close> is the amount of the record at the largest of them, or 0
  when there is none.
\<close>

definition balance_record :: "leveldb \<Rightarrow> string \<Rightarrow> int \<Rightarrow> string option" where
  "balance_record db address height =
     (case table db (address @ ''_'' @ int_to_stream height) of
        Found strValue \<Rightarrow> Some strValue
      | NotFound \<Rightarrow> None
      | Fault status \<Rightarrow> None)"

definition recorded_heights :: "leveldb \<Rightarrow> string \<Rightarrow> int \<Rightarrow> int list" where
  "recorded_heights db address height =
     filter (\<lambda>h. balance_record db address h \<noteq> None) [0..height]"

definition latest_balance :: "leveldb \<Rightarrow> string \<Rightarrow> int \<Rightarrow> CAmount" where
  "latest_balance db address height =
     (if recorded_heights db address height = [] then 0
      else case balance_record db address (Max (set (recorded_heights db address height))) of
             None \<Rightarrow> 0
           | Some strValue \<Rightarrow> stream_to_int64 strValue 0)"

text \<open>
  The fault that surfaces at a read of \<open>(address, height)\<close>: the status of the read
  when it is a fault for which the error handler throws. \<open>surfacing_faults\<close> are the
  heights from 0 to \<open>height\<close> whose read surfaces a fault, each with its fault, in
  ascending order of the heights.
\<close>

definition surfacing_fault :: "(fault \<Rightarrow> bool) \<Rightarrow> leveldb \<Rightarrow> string \<Rightarrow> int \<Rightarrow> fault option" where
  "surfacing_fault HandleError db address height =
     (case table db (address @ ''_'' @ int_to_stream height) of
        Found strValue \<Rightarrow> None
      | NotFound \<Rightarrow> None
      | Fault status \<Rightarrow> if HandleError status then Some status else None)"

definition surfacing_faults ::
  "(fault \<Rightarrow> bool) \<Rightarrow> leveldb \<Rightarrow> string \<Rightarrow> int \<Rightarrow> (int \<times> fault) list" where
  "surfacing_faults HandleError db address height =
     List.map_filter
       (\<lambda>h. map_option (Pair h) (surfacing_fault HandleError db address h)) [0..height]"

text \<open>
  What a lookup in the engine comes to, from \<open>height\<close> down to 0: of the heights that
  have a record and the heights whose read surfaces a fault, the largest decides. It
  is the amount of the latest record, or 0 when there is no record and no fault
  surfaces; it is the exception for the fault when the largest height at which a fault
  surfaces lies above every record.
\<close>

definition lookup_outcome ::
  "(fault \<Rightarrow> bool) \<Rightarrow> leveldb \<Rightarrow> string \<Rightarrow> int \<Rightarrow> fault + CAmount" where
  "lookup_outcome HandleError db address height =
     (case rev (surfacing_faults HandleError db address height) of
        [] \<Rightarrow> Inr (latest_balance db address height)
      | (k, status) # lower \<Rightarrow>
          if recorded_heights db address height = [] then Inl status
          else if k < Max (set (recorded_heights db address height))
          then Inr (latest_balance db address height)
          else Inl status)"

text \<open>
  The balance before of the specification: the cached amount when the cache holds the
  address, else the amount of the latest record at or below the height.
\<close>

definition balance_before :: "CBalanceViewDB \<Rightarrow> string \<Rightarrow> int \<Rightarrow> CAmount" where
  "balance_before st address height =
     (case cacheBalance st address of
        Some amount \<Rightarrow> amount
      | None \<Rightarrow> latest_balance (pdb st) address height)"

text \<open>The engine in which every read that faults answers not-found instead.\<close>

definition faults_as_not_found :: "leveldb \<Rightarrow> leveldb" where
  "faults_as_not_found db =
     db\<lparr>table := (\<lambda>k. case table db k of Fault status \<Rightarrow> NotFound | r \<Rightarrow> r)\<rparr>"

subsection \<open>Balance changes of a transaction\<close>

text \<open>
  A balance change is an address and a signed amount. Applying it at a height takes
  the balance before at the height below, adds the amount, writes the result to the
  cache and persists it at \<open>(address, height)\<close>, which uses up one outcome of the
  engine. \<open>failed_change\<close> is the change whose write the engine refuses: the cache is
  written, the table is not.
\<close>

definition record_balance :: "string \<Rightarrow> int \<Rightarrow> CAmount \<Rightarrow> leveldb \<Rightarrow> leveldb" where
  "record_balance address height val db =
     db\<lparr>table := (table db)(address @ ''_'' @ int_to_stream height
                               := Found (int_to_stream (sint val))),
        put_outcomes := tl (put_outcomes db)\<rparr>"

definition apply_change :: "int \<Rightarrow> CBalanceViewDB \<Rightarrow> string \<times> CAmount \<Rightarrow> CBalanceViewDB" where
  "apply_change height st change =
     (let address = fst change;
          val = balance_before st address (height - 1) + snd change
      in st\<lparr>cacheBalance := (cacheBalance st)(address \<mapsto> val),
            pdb := record_balance address height val (pdb st)\<rparr>)"

definition failed_change :: "int \<Rightarrow> CBalanceViewDB \<Rightarrow> string \<times> CAmount \<Rightarrow> CBalanceViewDB" where
  "failed_change height st change =
     (let address = fst change;
          val = balance_before st address (height - 1) + snd change
      in st\<lparr>cacheBalance := (cacheBalance st)(address \<mapsto> val),
            pdb := (pdb st)\<lparr>put_outcomes := tl (put_outcomes (pdb st))\<rparr>\<rparr>)"

text \<open>
  The changes of a transaction: one per input, the spent output's address and minus
  its value, in the order of the inputs; then one per output of strictly positive
  value, its address and its value, in the order of the outputs. The spent output of
  an input is the one that the UTXO view resolves. \<open>balance_changes\<close> are the changes
  that a call makes: none when the transaction has no output, no input change for a
  coinbase transaction or when the height is not positive.
\<close>

definition spent_output :: "(uint256 \<rightharpoonup> CCoins) \<Rightarrow> CTxIn \<Rightarrow> CTxOut option" where
  "spent_output inputs txin =
     (case inputs (prevout_hash txin) of
        None \<Rightarrow> None
      | Some pcoins \<Rightarrow>
          if unat (prevout_n txin) < length (coins_vout pcoins)
          then Some (coins_vout pcoins ! unat (prevout_n txin)) else None)"

definition input_changes ::
  "(CScript \<Rightarrow> string) \<Rightarrow> (uint256 \<rightharpoonup> CCoins) \<Rightarrow> CTxIn list \<Rightarrow> (string \<times> CAmount) list" where
  "input_changes ScriptPub2Addr inputs txins =
     map (\<lambda>out. (ScriptPub2Addr (scriptPubKey out), - nValue out))
       (List.map_filter (spent_output inputs) txins)"

definition output_changes ::
  "(CScript \<Rightarrow> string) \<Rightarrow> CTxOut list \<Rightarrow> (string \<times> CAmount) list" where
  "output_changes ScriptPub2Addr outs =
     map (\<lambda>out. (ScriptPub2Addr (scriptPubKey out), nValue out))
       (filter (\<lambda>out. 0 < sint (nValue out)) outs)"

definition balance_changes ::
  "(CScript \<Rightarrow> string) \<Rightarrow> (CTransaction \<Rightarrow> bool) \<Rightarrow> CTransaction \<Rightarrow> (uint256 \<rightharpoonup> CCoins)
     \<Rightarrow> int \<Rightarrow> (string \<times> CAmount) list" where
  "balance_changes ScriptPub2Addr IsCoinBase tx inputs height =
     (if vout tx = [] then []
      else (if \<not> IsCoinBase tx \<and> 0 < height
            then input_changes ScriptPub2Addr inputs (vin tx) else [])
           @ output_changes ScriptPub2Addr (vout tx))"

text \<open>
  The common shape of the two loops of \<^verbatim>\<open>UpdateBalance\<close>, over a list of changes:
  each round looks the balance up, writes the cache and then the engine, and the
  first lookup or write that throws, and the first write that is refused, ends the
  run.
\<close>

fun run_changes ::
  "(fault \<Rightarrow> bool) \<Rightarrow> int \<Rightarrow> (string \<times> CAmount) list \<Rightarrow> CBalanceViewDB
     \<Rightarrow> stopped + bool \<times> CBalanceViewDB"
where
  "run_changes HandleError height [] st = Inr (True, st)"
| "run_changes HandleError height (change # rest) st =
     (let address = fst change
      in (case GetBalance HandleError st address (height - 1) of
            Inl status \<Rightarrow> Inl (Throw status st)
          | Inr before \<Rightarrow>
              let val = before + snd change;
                  st1 = st\<lparr>cacheBalance := (cacheBalance st)(address \<mapsto> val)\<rparr>;
                  w = WriteDB HandleError address height val (pdb st1)
              in (case fst w of
                    Inl status \<Rightarrow> Inl (Throw status (st1\<lparr>pdb := snd w\<rparr>))
                  | Inr written \<Rightarrow>
                      if \<not> written then Inr (False, st1\<lparr>pdb := snd w\<rparr>)
                      else run_changes HandleError height rest (st1\<lparr>pdb := snd w\<rparr>))))"

text \<open>
  The lookups of a list of changes all return: none of them surfaces a fault, when
  each change is looked up in the state that the changes before it leave.
\<close>

fun lookups_return ::
  "(fault \<Rightarrow> bool) \<Rightarrow> int \<Rightarrow> (string \<times> CAmount) list \<Rightarrow> CBalanceViewDB \<Rightarrow> bool" where
  "lookups_return HandleError height [] st = True"
| "lookups_return HandleError height (change # rest) st =
     (case GetBalance HandleError st (fst change) (height - 1) of
        Inl status \<Rightarrow> False
      | Inr before \<Rightarrow> lookups_return HandleError height rest (apply_change height st change))"

subsection \<open>The loaded block index\<close>

text \<open>
  A block index is well formed when every hash of \<^verbatim>\<open>mapBlockIndex\<close> points to an
  allocated node and no two hashes share a node.
\<close>

definition wf_index :: "block_index \<Rightarrow> bool" where
  "wf_index st =
     ((\<forall>h p. mapBlockIndex st h = Some p \<longrightarrow> p < length (heap st))
      \<and> inj_on (mapBlockIndex st) (dom (mapBlockIndex st)))"

text \<open>
  What the reconstruction has to leave for a stored record \<open>d\<close>: \<open>fields_loaded\<close>, the
  node of the record's hash carries the scalar fields of the record; \<open>linked\<close>, it does
  and its previous-link points to the node that the index has for the record's
  previous-hash.
\<close>

definition same_fields :: "CBlockIndex \<Rightarrow> CDiskBlockIndex \<Rightarrow> bool" where
  "same_fields node d =
     (nHeight node = nHeight d \<and> nFile node = nFile d \<and> nDataPos node = nDataPos d
      \<and> nUndoPos node = nUndoPos d \<and> nVersion node = nVersion d
      \<and> hashMerkleRoot node = hashMerkleRoot d \<and> nTime node = nTime d
      \<and> nBits node = nBits d \<and> nNonce node = nNonce d \<and> nStatus node = nStatus d
      \<and> nTx node = nTx d \<and> baseTarget node = baseTarget d
      \<and> generationSignature node = generationSignature d
      \<and> pubKeyOfpackager node = pubKeyOfpackager d
      \<and> cumulativeDifficulty node = cumulativeDifficulty d)"

definition fields_loaded ::
  "(CDiskBlockIndex \<Rightarrow> uint256) \<Rightarrow> block_index \<Rightarrow> CDiskBlockIndex \<Rightarrow> bool" where
  "fields_loaded GetBlockHash st d =
     (case mapBlockIndex st (GetBlockHash d) of
        None \<Rightarrow> False
      | Some p \<Rightarrow> p < length (heap st) \<and> same_fields (heap st ! p) d)"

definition linked :: "(CDiskBlockIndex \<Rightarrow> uint256) \<Rightarrow> block_index \<Rightarrow> CDiskBlockIndex \<Rightarrow> bool" where
  "linked GetBlockHash st d =
     (case mapBlockIndex st (GetBlockHash d) of
        None \<Rightarrow> False
      | Some p \<Rightarrow>
          p < length (heap st)
          \<and> same_fields (heap st ! p) d
          \<and> pprev (heap st ! p) \<noteq> None
          \<and> pprev (heap st ! p) = mapBlockIndex st (hashPrev d))"

text \<open>
  The cursor position of a stored record: a key with the block-index tag and a value
  that decodes. \<open>is_index_record\<close> holds of such positions; \<open>scan_ends\<close> holds of a
  cursor that is exhausted or stands on a key that does not decode or bears another
  tag.
\<close>

definition index_entry :: "(CDiskBlockIndex \<Rightarrow> uint256) \<Rightarrow> CDiskBlockIndex \<Rightarrow> cursor_entry" where
  "index_entry GetBlockHash d =
     \<lparr>entry_key = Some (DB_BLOCK_INDEX, GetBlockHash d), entry_value = Some d\<rparr>"

definition is_index_record :: "cursor_entry \<Rightarrow> bool" where
  "is_index_record e =
     (case entry_key e of
        None \<Rightarrow> False
      | Some key \<Rightarrow> fst key = DB_BLOCK_INDEX \<and> entry_value e \<noteq> None)"

definition scan_ends :: "cursor_entry list \<Rightarrow> bool" where
  "scan_ends rest =
     (case rest of
        [] \<Rightarrow> True
      | e # later \<Rightarrow>
          (case entry_key e of None \<Rightarrow> True | Some key \<Rightarrow> fst key \<noteq> DB_BLOCK_INDEX))"

text \<open>
  The contract of a get-or-create callback, on well-formed indexes: the index stays
  well formed; for a hash other than the null hash the callback returns a pointer,
  the node that the index has for the hash afterwards; hashes that had a node keep
  it; nodes that were allocated are not touched. For the null hash a callback may
  return anything, the null pointer included. Calling such a callback twice with the
  same hash returns the same node.
\<close>

definition get_or_create :: "(uint256 \<Rightarrow> block_index \<Rightarrow> nat option \<times> block_index) \<Rightarrow> bool" where
  "get_or_create ins =
     (\<forall>st h. wf_index st \<longrightarrow>
        wf_index (snd (ins h st))
        \<and> (h \<noteq> 0 \<longrightarrow> fst (ins h st) \<noteq> None
                    \<and> fst (ins h st) = mapBlockIndex (snd (ins h st)) h)
        \<and> (\<forall>k. mapBlockIndex st k \<noteq> None \<longrightarrow>
                 mapBlockIndex (snd (ins h st)) k = mapBlockIndex st k)
        \<and> (\<forall>q < length (heap st). heap (snd (ins h st)) ! q = heap st ! q)
        \<and> length (heap st) \<le> length (heap (snd (ins h st))))"

text \<open>One round of the loop for a stored record \<open>d\<close> and a get-or-create callback.\<close>

definition load_record ::
  "(uint256 \<Rightarrow> block_index \<Rightarrow> nat option \<times> block_index) \<Rightarrow> (CDiskBlockIndex \<Rightarrow> uint256)
     \<Rightarrow> (uint256 \<Rightarrow> uint256) \<Rightarrow> CDiskBlockIndex \<Rightarrow> block_index \<Rightarrow> block_index" where
  "load_record ins GetBlockHash UintToArith256 d st =
     (let r1 = ins (GetBlockHash d) st;
          r2 = ins (hashPrev d) (snd r1);
          st2 = snd r2
      in case fst r1 of
           None \<Rightarrow> st2
         | Some p \<Rightarrow>
             st2\<lparr>heap := (heap st2)[p := assign_fields UintToArith256 (fst r2) d (heap st2 ! p)]\<rparr>)"

text \<open>
  Example records: in the examples the merkle root stands for the block hash that
  \<^verbatim>\<open>GetBlockHash\<close> computes.
\<close>

definition disk_block :: "uint256 \<Rightarrow> uint256 \<Rightarrow> 32 word \<Rightarrow> CDiskBlockIndex" where
  "disk_block h prev height =
     \<lparr>pprev = None, nHeight = height, nFile = 0, nDataPos = 8, nUndoPos = 0, nVersion = 1,
      hashMerkleRoot = h, nTime = 0, nBits = 0, nNonce = 0, nStatus = 0, nTx = 1,
      baseTarget = 0, generationSignature = 0, pubKeyOfpackager = [],
      cumulativeDifficulty = 0, nChainDiff = 0, hashPrev = prev\<rparr>"

definition empty_index :: block_index where
  "empty_index = \<lparr>heap = [], mapBlockIndex = Map.empty\<rparr>"

subsection \<open>An example transfer\<close>

text \<open>
  The end-to-end example of the specification: a transaction that spends a 30-unit
  output owned by address A and creates a 30-unit output owned by address B, the UTXO
  view that holds the spent coin, and a balance index in which A has 50 at height 9,
  B has no record and the cache is empty. Scripts stand for their addresses, and the
  transaction is not a coinbase.
\<close>

definition transfer_A_to_B :: CTransaction where
  "transfer_A_to_B =
     \<lparr>vin = [\<lparr>prevout_hash = 1, prevout_n = 0\<rparr>],
      vout = [\<lparr>nValue = 30, scriptPubKey = ''B''\<rparr>]\<rparr>"

definition view_of_A :: "uint256 \<rightharpoonup> CCoins" where
  "view_of_A =
     [1 \<mapsto> \<lparr>fCoinBase = False, coins_vout = [\<lparr>nValue = 30, scriptPubKey = ''A''\<rparr>]\<rparr>]"

definition balances_at_9 :: "fault option list \<Rightarrow> CBalanceViewDB" where
  "balances_at_9 outcomes =
     \<lparr>cacheBalance = Map.empty,
      pdb = \<lparr>table = (\<lambda>k. NotFound)(''A_9'' := Found ''50''), put_outcomes = outcomes\<rparr>\<rparr>"

section \<open>Properties\<close>

subsection \<open>UTXO store\<close>

lemma BatchWrite_loop_drain:
  "BatchWrite_loop IsPruned mapCoins batch counted changed =
     ([], batch @ map (drain_op IsPruned) (filter is_dirty mapCoins),
      counted + length mapCoins, changed + length (filter is_dirty mapCoins))"
  by (induction IsPruned mapCoins batch counted changed rule: BatchWrite_loop.induct)
     (simp_all add: is_dirty_def drain_op_def)

text \<open>
  Claim C1. For every diff and best-block hash, the batch that \<^verbatim>\<open>BatchWrite\<close> builds
  holds, in the order of the iteration, one operation for each dirty entry (a delete
  when its coins record is pruned, an upsert otherwise) and none for the other
  entries, followed by the write of the best-block pointer when the hash is not null.
  This batch is the one that the call hands to \<^verbatim>\<open>WriteBatch\<close>: the call returns the
  outcome of the commit and leaves the store with the batch applied when the commit
  succeeds and as it was when the commit fails; the diff is empty after the call,
  whether the commit succeeds or fails.
\<close>

theorem BatchWrite_drain:
  "BatchWrite_batch IsPruned mapCoins hashBlock =
     ([], map (drain_op IsPruned) (filter is_dirty mapCoins)
          @ (if hashBlock \<noteq> 0 then [Write (Key DB_BEST_BLOCK) (ValHash hashBlock)] else []))
   \<and> BatchWrite IsPruned commit_ok db mapCoins hashBlock =
       (fst (WriteBatch commit_ok db (snd (BatchWrite_batch IsPruned mapCoins hashBlock))),
        snd (WriteBatch commit_ok db (snd (BatchWrite_batch IsPruned mapCoins hashBlock))),
        [])
   \<and> BatchWrite IsPruned commit_ok db mapCoins hashBlock =
       (commit_ok,
        (if commit_ok
         then foldl apply_entry db
                (map (drain_op IsPruned) (filter is_dirty mapCoins)
                 @ (if hashBlock \<noteq> 0 then [Write (Key DB_BEST_BLOCK) (ValHash hashBlock)]
                    else []))
         else db),
        [])
   \<and> snd (snd (BatchWrite IsPruned True db mapCoins hashBlock)) = []
   \<and> snd (snd (BatchWrite IsPruned False db mapCoins hashBlock)) = []
   \<and> fst (BatchWrite IsPruned commit_ok db mapCoins hashBlock) = commit_ok"
  by (simp add: BatchWrite_batch_def BatchWrite_def BatchWrite_loop_drain WriteBatch_def)

lemma foldl_drain_other_key:
  "foldl apply_entry db (map (drain_op IsPruned) xs) (Key c) = db (Key c)"
  by (induction xs arbitrary: db) (simp_all add: drain_op_def)

lemma GetBestBlock_BatchWrite:
  "GetBestBlock (fst (snd (BatchWrite IsPruned commit_ok db mapCoins hashBlock))) =
     (if commit_ok \<and> hashBlock \<noteq> 0 then hashBlock else GetBestBlock db)"
  by (simp add: BatchWrite_def BatchWrite_batch_def BatchWrite_loop_drain WriteBatch_def
      GetBestBlock_def Read_hash_def foldl_drain_other_key)

lemma flush_all_Cons:
  "flush_all IsPruned db ((commit_ok, mapCoins, hashBlock) # calls) =
     flush_all IsPruned (fst (snd (BatchWrite IsPruned commit_ok db mapCoins hashBlock))) calls"
  by (simp add: flush_all_def)

lemma GetBestBlock_flush_all:
  "GetBestBlock (flush_all IsPruned db calls) =
     foldl (\<lambda>best (commit_ok, mapCoins, hashBlock).
              if commit_ok \<and> hashBlock \<noteq> 0 then hashBlock else best) (GetBestBlock db) calls"
proof (induction calls arbitrary: db)
  case Nil
  show ?case by (simp add: flush_all_def)
next
  case (Cons c calls)
  obtain ok m h where c: "c = (ok, m, h)" by (cases c)
  show ?case
    using Cons.IH [of "fst (snd (BatchWrite IsPruned ok db m h))"]
    by (simp add: c flush_all_Cons GetBestBlock_BatchWrite)
qed

text \<open>
  Claim C5. A store in which no best-block pointer has been committed answers the zero
  hash. After any sequence of flushes from such a store, \<^verbatim>\<open>GetBestBlock\<close> answers the
  last non-null hash supplied to a flush that committed, or the zero hash when there
  was none; one more successful flush makes it answer the hash supplied when that is
  not null, and what it answered before when it is null.
\<close>

theorem GetBestBlock_after_flushes:
  assumes "db0 (Key DB_BEST_BLOCK) = None"
  shows "GetBestBlock db0 = 0
     \<and> GetBestBlock (flush_all IsPruned db0 calls) =
         foldl (\<lambda>best (commit_ok, mapCoins, hashBlock).
                  if commit_ok \<and> hashBlock \<noteq> 0 then hashBlock else best) 0 calls
     \<and> GetBestBlock (fst (snd (BatchWrite IsPruned True (flush_all IsPruned db0 calls)
                                   mapCoins hashBlock))) =
         (if hashBlock \<noteq> 0 then hashBlock
          else GetBestBlock (flush_all IsPruned db0 calls))"
proof -
  have z: "GetBestBlock db0 = 0"
    using assms by (simp add: GetBestBlock_def Read_hash_def)
  show ?thesis
    using z by (simp add: GetBestBlock_flush_all GetBestBlock_BatchWrite)
qed

theorem GetBestBlock_after_flushes_witness:
  "(Map.empty :: CDBWrapper) (Key DB_BEST_BLOCK) = None
   \<and> GetBestBlock Map.empty = 0
   \<and> GetBestBlock
        (flush_all (\<lambda>c. coins_vout c = []) Map.empty
           [(True, [(7, \<lparr>coins = \<lparr>fCoinBase = False, coins_vout = []\<rparr>, flags = 1\<rparr>)], 5),
            (True, [], 0)]) = 5
   \<and> GetBestBlock
        (fst (snd (BatchWrite (\<lambda>c. coins_vout c = []) True
           (flush_all (\<lambda>c. coins_vout c = []) Map.empty
              [(True, [(7, \<lparr>coins = \<lparr>fCoinBase = False, coins_vout = []\<rparr>, flags = 1\<rparr>)], 5),
               (True, [], 0)])
           [] 9))) = 9"
  using GetBestBlock_after_flushes [of Map.empty "\<lambda>c. coins_vout c = []"
      "[(True, [(7, \<lparr>coins = \<lparr>fCoinBase = False, coins_vout = []\<rparr>, flags = 1\<rparr>)], 5),
        (True, [], 0)]" "[]" 9]
  by simp

subsection \<open>Named flags\<close>

lemma flag_writes_other:
  "name \<notin> set (map (\<lambda>c. fst (snd c)) calls) \<Longrightarrow>
     flag_writes db calls (KeyName DB_FLAG name) = db (KeyName DB_FLAG name)"
proof (induction calls arbitrary: db)
  case Nil
  show ?case by (simp add: flag_writes_def)
next
  case (Cons c calls)
  obtain ok nm b where c: "c = (ok, nm, b)" by (cases c)
  have step: "flag_writes db (c # calls) = flag_writes (snd (WriteFlag ok db nm b)) calls"
    by (simp add: flag_writes_def c)
  have "nm \<noteq> name" using Cons.prems by (auto simp: c)
  then have "snd (WriteFlag ok db nm b) (KeyName DB_FLAG name) = db (KeyName DB_FLAG name)"
    by (simp add: WriteFlag_def WriteBatch_def)
  then show ?case
    using Cons.IH [of "snd (WriteFlag ok db nm b)"] Cons.prems step by simp
qed

text \<open>
  Claim C9. In a store that had no flag of the name at the start and has seen writes
  of other flags only, \<^verbatim>\<open>ReadFlag\<close> of the name returns false, the not-found outcome,
  and leaves \<^verbatim>\<open>fValue\<close> as it was. After a successful \<^verbatim>\<open>WriteFlag\<close> of the name with
  value false, \<^verbatim>\<open>ReadFlag\<close> returns true, found, with \<^verbatim>\<open>fValue\<close> false: the two outcomes
  differ in the value returned.
\<close>

theorem ReadFlag_tristate:
  assumes "db0 (KeyName DB_FLAG name) = None"
    and "name \<notin> set (map (\<lambda>c. fst (snd c)) calls)"
  shows "ReadFlag (flag_writes db0 calls) name fValue = (False, fValue)
     \<and> fst (WriteFlag True (flag_writes db0 calls) name False)
     \<and> ReadFlag (snd (WriteFlag True (flag_writes db0 calls) name False)) name fValue
          = (True, False)"
  using flag_writes_other [OF assms(2), of db0] assms(1)
  by (simp add: ReadFlag_def Read_char_def WriteFlag_def WriteBatch_def)

theorem ReadFlag_tristate_witness:
  "(Map.empty :: CDBWrapper) (KeyName DB_FLAG ''x'') = None
   \<and> ''x'' \<notin> set (map (\<lambda>c. fst (snd c)) [(True, ''txindex'', True)])
   \<and> ReadFlag (flag_writes Map.empty [(True, ''txindex'', True)]) ''x'' True = (False, True)
   \<and> ReadFlag (snd (WriteFlag True (flag_writes Map.empty [(True, ''txindex'', True)])
                       ''x'' False)) ''x'' True = (True, False)"
proof -
  have h1: "(Map.empty :: CDBWrapper) (KeyName DB_FLAG ''x'') = None" by simp
  have h2: "''x'' \<notin> set (map (\<lambda>c. fst (snd c)) [(True, ''txindex'', True)])" by simp
  show ?thesis
    using ReadFlag_tristate [OF h1 h2, of True] h1 h2 by simp
qed

subsection \<open>Block index store\<close>

lemma Insert_props:
  assumes "wf_index st"
  shows "fst (InsertBlockIndex h st) = mapBlockIndex (snd (InsertBlockIndex h st)) h"
    and "fst (InsertBlockIndex h st) \<noteq> None"
    and "wf_index (snd (InsertBlockIndex h st))"
    and "mapBlockIndex st k \<noteq> None \<Longrightarrow>
           mapBlockIndex (snd (InsertBlockIndex h st)) k = mapBlockIndex st k"
    and "q < length (heap st) \<Longrightarrow> heap (snd (InsertBlockIndex h st)) ! q = heap st ! q"
    and "length (heap st) \<le> length (heap (snd (InsertBlockIndex h st)))"
proof -
  show "fst (InsertBlockIndex h st) = mapBlockIndex (snd (InsertBlockIndex h st)) h"
    by (simp add: InsertBlockIndex_def split: option.splits)
  show "fst (InsertBlockIndex h st) \<noteq> None"
    by (simp add: InsertBlockIndex_def split: option.splits)
  show "mapBlockIndex st k \<noteq> None \<Longrightarrow>
           mapBlockIndex (snd (InsertBlockIndex h st)) k = mapBlockIndex st k"
    by (auto simp: InsertBlockIndex_def split: option.splits)
  show "q < length (heap st) \<Longrightarrow> heap (snd (InsertBlockIndex h st)) ! q = heap st ! q"
    by (simp add: InsertBlockIndex_def nth_append split: option.splits)
  show "length (heap st) \<le> length (heap (snd (InsertBlockIndex h st)))"
    by (simp add: InsertBlockIndex_def split: option.splits)
  show "wf_index (snd (InsertBlockIndex h st))"
  proof (cases "mapBlockIndex st h")
    case (Some p)
    with assms show ?thesis by (simp add: InsertBlockIndex_def)
  next
    case None
    let ?m = "(mapBlockIndex st)(h \<mapsto> length (heap st))"
    have bound: "\<And>k p. mapBlockIndex st k = Some p \<Longrightarrow> p < length (heap st)"
      using assms by (simp add: wf_index_def)
    have inj: "inj_on (mapBlockIndex st) (dom (mapBlockIndex st))"
      using assms by (simp add: wf_index_def)
    have "inj_on ?m (dom ?m)"
    proof (rule inj_onI)
      fix x y assume x: "x \<in> dom ?m" and y: "y \<in> dom ?m" and eq: "?m x = ?m y"
      show "x = y"
      proof (cases "x = h")
        case True
        show ?thesis
        proof (rule ccontr)
          assume "x \<noteq> y"
          with True eq have "mapBlockIndex st y = Some (length (heap st))" by auto
          from bound [OF this] show False by simp
        qed
      next
        case xh: False
        show ?thesis
        proof (cases "y = h")
          case True
          with xh eq have "mapBlockIndex st x = Some (length (heap st))" by auto
          from bound [OF this] show ?thesis by simp
        next
          case False
          with xh x y eq have "x \<in> dom (mapBlockIndex st)" "y \<in> dom (mapBlockIndex st)"
            "mapBlockIndex st x = mapBlockIndex st y" by auto
          with inj show ?thesis by (auto dest: inj_onD)
        qed
      qed
    qed
    moreover have "\<forall>k p. ?m k = Some p \<longrightarrow> p < length (heap st @ [empty_CBlockIndex])"
      using bound by (auto simp: less_Suc_eq)
    ultimately show ?thesis
      using None by (simp add: InsertBlockIndex_def wf_index_def)
  qed
qed

lemma assign_fields_props:
  "same_fields (assign_fields U link d node) d"
  "pprev (assign_fields U link d node) = link"
  by (simp_all add: assign_fields_def same_fields_def)


lemma get_or_createD:
  assumes "get_or_create ins" and "wf_index st"
  shows "wf_index (snd (ins h st))"
    and "h \<noteq> 0 \<Longrightarrow> fst (ins h st) \<noteq> None"
    and "h \<noteq> 0 \<Longrightarrow> fst (ins h st) = mapBlockIndex (snd (ins h st)) h"
    and "mapBlockIndex st k \<noteq> None \<Longrightarrow> mapBlockIndex (snd (ins h st)) k = mapBlockIndex st k"
    and "q < length (heap st) \<Longrightarrow> heap (snd (ins h st)) ! q = heap st ! q"
    and "length (heap st) \<le> length (heap (snd (ins h st)))"
  using assms unfolding get_or_create_def by blast+

lemma get_or_create_idempotent:
  assumes "get_or_create ins" and "wf_index st" and "h \<noteq> 0"
  shows "fst (ins h (snd (ins h st))) = fst (ins h st)"
proof -
  have wf1: "wf_index (snd (ins h st))"
    using get_or_createD(1) [OF assms(1,2)] .
  have first: "fst (ins h st) = mapBlockIndex (snd (ins h st)) h"
    and some: "fst (ins h st) \<noteq> None"
    using get_or_createD(2,3) [OF assms(1,2,3)] by simp_all
  have "fst (ins h (snd (ins h st))) = mapBlockIndex (snd (ins h (snd (ins h st)))) h"
    using get_or_createD(3) [OF assms(1) wf1 assms(3)] .
  also have "\<dots> = mapBlockIndex (snd (ins h st)) h"
    using get_or_createD(4) [OF assms(1) wf1, of h h] first some by simp
  finally show ?thesis using first by simp
qed

lemma InsertBlockIndex_get_or_create: "get_or_create InsertBlockIndex"
  unfolding get_or_create_def
proof (intro allI impI conjI)
  fix st :: block_index and h :: uint256
  assume wf: "wf_index st"
  show "wf_index (snd (InsertBlockIndex h st))"
    using Insert_props(3) [OF wf] .
  show "fst (InsertBlockIndex h st) \<noteq> None"
    using Insert_props(2) [OF wf] .
  show "fst (InsertBlockIndex h st) = mapBlockIndex (snd (InsertBlockIndex h st)) h"
    using Insert_props(1) [OF wf] .
  show "length (heap st) \<le> length (heap (snd (InsertBlockIndex h st)))"
    using Insert_props(6) [OF wf] .
next
  fix st :: block_index and h k :: uint256
  assume wf: "wf_index st" and "mapBlockIndex st k \<noteq> None"
  then show "mapBlockIndex (snd (InsertBlockIndex h st)) k = mapBlockIndex st k"
    using Insert_props(4) [OF wf] by simp
next
  fix st :: block_index and h :: uint256 and q
  assume wf: "wf_index st" and "q < length (heap st)"
  then show "heap (snd (InsertBlockIndex h st)) ! q = heap st ! q"
    using Insert_props(5) [OF wf] by simp
qed

lemma linked_unfold:
  "mapBlockIndex st (H d) = Some p \<Longrightarrow>
     linked H st d = (p < length (heap st) \<and> same_fields (heap st ! p) d
        \<and> pprev (heap st ! p) \<noteq> None
        \<and> pprev (heap st ! p) = mapBlockIndex st (hashPrev d))"
  by (simp add: linked_def)

lemma fields_loaded_unfold:
  "mapBlockIndex st (H d) = Some p \<Longrightarrow>
     fields_loaded H st d = (p < length (heap st) \<and> same_fields (heap st ! p) d)"
  by (simp add: fields_loaded_def)

lemma LoadBlockIndexGuts_ends:
  "scan_ends rest \<Longrightarrow> LoadBlockIndexGuts ins H U rest st = Inr (True, st)"
  by (cases rest) (auto simp: scan_ends_def split: option.splits)

lemma load_record_props:
  assumes goc: "get_or_create ins" and wf: "wf_index st" and nz: "H d \<noteq> 0"
  shows "wf_index (load_record ins H U d st)"
    and "fields_loaded H (load_record ins H U d st) d"
    and "hashPrev d \<noteq> 0 \<Longrightarrow> linked H (load_record ins H U d st) d"
    and "fields_loaded H st d' \<Longrightarrow> H d' \<noteq> H d \<Longrightarrow>
           fields_loaded H (load_record ins H U d st) d'"
    and "linked H st d' \<Longrightarrow> H d' \<noteq> H d \<Longrightarrow> linked H (load_record ins H U d st) d'"
    and "LoadBlockIndexGuts ins H U (index_entry H d # rest) st =
           LoadBlockIndexGuts ins H U rest (load_record ins H U d st)"
proof -
  define r1 where "r1 = ins (H d) st"
  define r2 where "r2 = ins (hashPrev d) (snd r1)"
  define st1 where "st1 = snd r1"
  define st2 where "st2 = snd r2"
  have wf1: "wf_index st1"
    using get_or_createD(1) [OF goc wf] by (simp add: st1_def r1_def)
  have wf2: "wf_index st2"
    using get_or_createD(1) [OF goc wf1] by (simp add: st2_def r2_def st1_def)
  obtain p where p: "fst r1 = Some p"
    using get_or_createD(2) [OF goc wf nz] by (auto simp: r1_def)
  have m1: "mapBlockIndex st1 (H d) = Some p"
    using get_or_createD(3) [OF goc wf nz] p by (simp add: r1_def st1_def)
  have m2: "mapBlockIndex st2 (H d) = Some p"
    using get_or_createD(4) [OF goc wf1, of "H d" "hashPrev d"] m1
    by (simp add: st2_def r2_def st1_def)
  have p2: "p < length (heap st2)"
    using wf2 m2 by (simp add: wf_index_def)
  have lr: "load_record ins H U d st =
              st2\<lparr>heap := (heap st2)[p := assign_fields U (fst r2) d (heap st2 ! p)]\<rparr>"
    using p by (simp add: load_record_def Let_def r1_def r2_def st2_def)
  have maps: "mapBlockIndex (load_record ins H U d st) = mapBlockIndex st2"
    by (simp add: lr)
  have grow: "\<And>k. mapBlockIndex st k \<noteq> None \<Longrightarrow> mapBlockIndex st2 k = mapBlockIndex st k"
  proof -
    fix k assume k: "mapBlockIndex st k \<noteq> None"
    have a: "mapBlockIndex st1 k = mapBlockIndex st k"
      using get_or_createD(4) [OF goc wf k, of "H d"] by (simp add: st1_def r1_def)
    with k have "mapBlockIndex st1 k \<noteq> None" by simp
    from get_or_createD(4) [OF goc wf1 this, of "hashPrev d"] a
    show "mapBlockIndex st2 k = mapBlockIndex st k"
      by (simp add: st2_def r2_def st1_def)
  qed
  have keep: "\<And>q. q < length (heap st) \<Longrightarrow> heap st2 ! q = heap st ! q"
  proof -
    fix q assume q: "q < length (heap st)"
    have a: "heap st1 ! q = heap st ! q"
      using get_or_createD(5) [OF goc wf q, of "H d"] by (simp add: st1_def r1_def)
    have "length (heap st) \<le> length (heap st1)"
      using get_or_createD(6) [OF goc wf, of "H d"] by (simp add: st1_def r1_def)
    with q have "q < length (heap st1)" by simp
    from get_or_createD(5) [OF goc wf1 this, of "hashPrev d"] a
    show "heap st2 ! q = heap st ! q"
      by (simp add: st2_def r2_def st1_def)
  qed
  have other: "heap (load_record ins H U d st) ! p' = heap st ! p'
                 \<and> mapBlockIndex st2 (H d') = Some p' \<and> p' < length (heap st2)"
    if p': "mapBlockIndex st (H d') = Some p'" and b': "p' < length (heap st)"
      and ne: "H d' \<noteq> H d" for d' p'
  proof -
    have m': "mapBlockIndex st2 (H d') = Some p'"
      using grow [of "H d'"] p' by simp
    have "p' \<noteq> p"
    proof
      assume "p' = p"
      with m' m2 have "mapBlockIndex st2 (H d') = mapBlockIndex st2 (H d)" by simp
      moreover have "inj_on (mapBlockIndex st2) (dom (mapBlockIndex st2))"
        using wf2 by (simp add: wf_index_def)
      moreover have "H d' \<in> dom (mapBlockIndex st2)" "H d \<in> dom (mapBlockIndex st2)"
        using m' m2 by auto
      ultimately have "H d' = H d" by (auto dest: inj_onD)
      with ne show False by simp
    qed
    moreover have "p' < length (heap st2)"
      using wf2 m' by (simp add: wf_index_def)
    ultimately show ?thesis
      using keep [OF b'] m' by (simp add: lr)
  qed
  show "wf_index (load_record ins H U d st)"
    using wf2 by (simp add: lr wf_index_def)
  show "fields_loaded H (load_record ins H U d st) d"
    using m2 p2 by (simp add: fields_loaded_def lr assign_fields_props)
  show "linked H (load_record ins H U d st) d" if "hashPrev d \<noteq> 0"
  proof -
    have "fst r2 \<noteq> None" "fst r2 = mapBlockIndex st2 (hashPrev d)"
      using get_or_createD(2,3) [OF goc wf1 that]
      by (simp_all add: r2_def st2_def st1_def)
    then show ?thesis
      using m2 p2 by (simp add: linked_def lr assign_fields_props)
  qed
  show "fields_loaded H (load_record ins H U d st) d'"
    if old: "fields_loaded H st d'" and ne: "H d' \<noteq> H d"
  proof -
    from old obtain p' where p': "mapBlockIndex st (H d') = Some p'"
      by (cases "mapBlockIndex st (H d')") (simp_all add: fields_loaded_def)
    from old have b': "p' < length (heap st)" and f': "same_fields (heap st ! p') d'"
      using fields_loaded_unfold [where H = H and d = d', OF p'] by blast+
    from other [OF p' b' ne] f' show ?thesis
      by (simp add: fields_loaded_def maps lr)
  qed
  show "linked H (load_record ins H U d st) d'"
    if old: "linked H st d'" and ne: "H d' \<noteq> H d"
  proof -
    from old obtain p' where p': "mapBlockIndex st (H d') = Some p'"
      by (cases "mapBlockIndex st (H d')") (simp_all add: linked_def)
    from old have b': "p' < length (heap st)" and f': "same_fields (heap st ! p') d'"
      and l': "pprev (heap st ! p') \<noteq> None"
      and e': "pprev (heap st ! p') = mapBlockIndex st (hashPrev d')"
      using linked_unfold [where H = H and d = d', OF p'] by blast+
    have "mapBlockIndex st2 (hashPrev d') = mapBlockIndex st (hashPrev d')"
      using grow [of "hashPrev d'"] l' e' by simp
    with other [OF p' b' ne] f' l' e' show ?thesis
      by (simp add: linked_def maps lr)
  qed
  show "LoadBlockIndexGuts ins H U (index_entry H d # rest) st =
           LoadBlockIndexGuts ins H U rest (load_record ins H U d st)"
    using p p2 by (simp add: index_entry_def load_record_def Let_def r1_def r2_def st2_def)
qed

lemma LoadBlockIndexGuts_links:
  assumes "get_or_create ins" and "wf_index st" and "distinct (map H order)"
    and "0 \<notin> set (map H order)" and "scan_ends rest"
  shows "\<exists>st'. LoadBlockIndexGuts ins H U (map (index_entry H) order @ rest) st
                 = Inr (True, st')
           \<and> wf_index st'
           \<and> (\<forall>d \<in> set order. fields_loaded H st' d \<and> (hashPrev d \<noteq> 0 \<longrightarrow> linked H st' d))
           \<and> (\<forall>d. fields_loaded H st d \<and> H d \<notin> H ` set order \<longrightarrow> fields_loaded H st' d)
           \<and> (\<forall>d. linked H st d \<and> H d \<notin> H ` set order \<longrightarrow> linked H st' d)"
  using assms(2-4)
proof (induction order arbitrary: st)
  case Nil
  then show ?case by (simp add: LoadBlockIndexGuts_ends [OF assms(5)])
next
  case (Cons d order)
  let ?st1 = "load_record ins H U d st"
  have nz: "H d \<noteq> 0" and nzs: "0 \<notin> set (map H order)"
    using Cons.prems(3) by auto
  note props = load_record_props [where H = H and d = d and U = U, OF assms(1) Cons.prems(1) nz]
  have dist: "distinct (map H order)" and fresh: "H d \<notin> H ` set order"
    using Cons.prems(2) by auto
  from Cons.IH [OF props(1) dist nzs] obtain st' where
    run: "LoadBlockIndexGuts ins H U (map (index_entry H) order @ rest) ?st1 = Inr (True, st')"
    and wf': "wf_index st'"
    and new: "\<forall>x \<in> set order. fields_loaded H st' x \<and> (hashPrev x \<noteq> 0 \<longrightarrow> linked H st' x)"
    and oldf: "\<forall>x. fields_loaded H ?st1 x \<and> H x \<notin> H ` set order \<longrightarrow> fields_loaded H st' x"
    and oldl: "\<forall>x. linked H ?st1 x \<and> H x \<notin> H ` set order \<longrightarrow> linked H st' x"
    by blast
  have "LoadBlockIndexGuts ins H U (map (index_entry H) (d # order) @ rest) st = Inr (True, st')"
    using props(6) run by simp
  moreover have "fields_loaded H st' d"
    using oldf props(2) fresh by blast
  moreover have "hashPrev d \<noteq> 0 \<longrightarrow> linked H st' d"
    using oldl props(3) fresh by blast
  moreover have "\<forall>x. fields_loaded H st x \<and> H x \<notin> H ` set (d # order) \<longrightarrow> fields_loaded H st' x"
  proof (intro allI impI)
    fix x assume x: "fields_loaded H st x \<and> H x \<notin> H ` set (d # order)"
    then have "fields_loaded H ?st1 x"
      using props(4) [of x] by auto
    with x oldf show "fields_loaded H st' x" by auto
  qed
  moreover have "\<forall>x. linked H st x \<and> H x \<notin> H ` set (d # order) \<longrightarrow> linked H st' x"
  proof (intro allI impI)
    fix x assume x: "linked H st x \<and> H x \<notin> H ` set (d # order)"
    then have "linked H ?st1 x"
      using props(5) [of x] by auto
    with x oldl show "linked H st' x" by auto
  qed
  ultimately show ?case
    using wf' new by auto
qed

text \<open>
  Claim C2. Take stored records with distinct hashes, none of them the null hash, in
  any order of enumeration, on a cursor that ends after them, a get-or-create callback
  and a well-formed index to start from. Then \<^verbatim>\<open>LoadBlockIndexGuts\<close> returns true and
  leaves a well-formed index in which the node of every record's hash carries the
  record's scalar fields and, for every record with a previous-hash other than the
  null hash, has its previous-link on the node of that previous-hash. The order does
  not occur in what is left, so the outcome is the same for every order, child before
  parent included.
\<close>

theorem LoadBlockIndexGuts_links_parents:
  assumes "get_or_create insertBlockIndex" and "wf_index st"
    and "distinct (map GetBlockHash recs)" and "0 \<notin> set (map GetBlockHash recs)"
    and "mset order = mset recs" and "scan_ends rest"
  shows "\<exists>st'. LoadBlockIndexGuts insertBlockIndex GetBlockHash UintToArith256
                  (map (index_entry GetBlockHash) order @ rest) st = Inr (True, st')
           \<and> wf_index st'
           \<and> (\<forall>d \<in> set recs. fields_loaded GetBlockHash st' d
                               \<and> (hashPrev d \<noteq> 0 \<longrightarrow> linked GetBlockHash st' d))"
proof -
  have "mset (map GetBlockHash order) = mset (map GetBlockHash recs)"
    using assms(5) by (metis mset_map)
  then have dist: "distinct (map GetBlockHash order)"
    using assms(3) by (metis mset_eq_imp_distinct_iff)
  have same: "set order = set recs"
    using assms(5) by (metis mset_eq_setD)
  then have nz: "0 \<notin> set (map GetBlockHash order)"
    using assms(4) by simp
  from LoadBlockIndexGuts_links [OF assms(1,2) dist nz assms(6), of UintToArith256]
  obtain st' where "LoadBlockIndexGuts insertBlockIndex GetBlockHash UintToArith256
                  (map (index_entry GetBlockHash) order @ rest) st = Inr (True, st')"
    and "wf_index st'"
    and "\<forall>d \<in> set order. fields_loaded GetBlockHash st' d
                               \<and> (hashPrev d \<noteq> 0 \<longrightarrow> linked GetBlockHash st' d)"
    by blast
  then show ?thesis
    using same by blast
qed

theorem LoadBlockIndexGuts_links_parents_witness:
  "get_or_create InsertBlockIndex
   \<and> wf_index empty_index
   \<and> distinct (map hashMerkleRoot [disk_block 1 0 0, disk_block 2 1 1, disk_block 3 2 2])
   \<and> 0 \<notin> set (map hashMerkleRoot [disk_block 1 0 0, disk_block 2 1 1, disk_block 3 2 2])
   \<and> mset [disk_block 3 2 2, disk_block 2 1 1, disk_block 1 0 0]
       = mset [disk_block 1 0 0, disk_block 2 1 1, disk_block 3 2 2]
   \<and> scan_ends [\<lparr>entry_key = Some (DB_TXINDEX, 9), entry_value = None\<rparr>]
   \<and> (\<exists>st'. LoadBlockIndexGuts InsertBlockIndex hashMerkleRoot (\<lambda>x. x)
                (map (index_entry hashMerkleRoot)
                   [disk_block 3 2 2, disk_block 2 1 1, disk_block 1 0 0]
                 @ [\<lparr>entry_key = Some (DB_TXINDEX, 9), entry_value = None\<rparr>]) empty_index
                = Inr (True, st')
              \<and> linked hashMerkleRoot st' (disk_block 2 1 1)
              \<and> linked hashMerkleRoot st' (disk_block 3 2 2)
              \<and> fields_loaded hashMerkleRoot st' (disk_block 1 0 0))
   \<and> (case LoadBlockIndexGuts InsertBlockIndex hashMerkleRoot (\<lambda>x. x)
                (map (index_entry hashMerkleRoot)
                   [disk_block 3 2 2, disk_block 2 1 1, disk_block 1 0 0]
                 @ [\<lparr>entry_key = Some (DB_TXINDEX, 9), entry_value = None\<rparr>]) empty_index of
          Inl c \<Rightarrow> False
        | Inr r \<Rightarrow>
            fst r
            \<and> mapBlockIndex (snd r) 3 = Some 0 \<and> mapBlockIndex (snd r) 2 = Some 1
            \<and> mapBlockIndex (snd r) 1 = Some 2
            \<and> pprev (heap (snd r) ! 0) = Some 1 \<and> pprev (heap (snd r) ! 1) = Some 2
            \<and> nHeight (heap (snd r) ! 0) = 2 \<and> nHeight (heap (snd r) ! 1) = 1
            \<and> nHeight (heap (snd r) ! 2) = 0)"
proof -
  have h0: "get_or_create InsertBlockIndex"
    by (rule InsertBlockIndex_get_or_create)
  have h1: "wf_index empty_index"
    by (simp add: wf_index_def empty_index_def)
  have h2: "distinct (map hashMerkleRoot [disk_block 1 0 0, disk_block 2 1 1, disk_block 3 2 2])"
    by (simp add: disk_block_def)
  have h2': "0 \<notin> set (map hashMerkleRoot [disk_block 1 0 0, disk_block 2 1 1, disk_block 3 2 2])"
    by (simp add: disk_block_def)
  have h3: "mset [disk_block 3 2 2, disk_block 2 1 1, disk_block 1 0 0]
              = mset [disk_block 1 0 0, disk_block 2 1 1, disk_block 3 2 2]"
    by (simp add: add_mset_commute)
  have h4: "scan_ends [\<lparr>entry_key = Some (DB_TXINDEX, 9), entry_value = None\<rparr>]"
    by (simp add: scan_ends_def DB_TXINDEX_def DB_BLOCK_INDEX_def)
  have nz: "hashPrev (disk_block 2 1 1) \<noteq> 0" "hashPrev (disk_block 3 2 2) \<noteq> 0"
    by (simp_all add: disk_block_def)
  from LoadBlockIndexGuts_links_parents [OF h0 h1 h2 h2' h3 h4, of "\<lambda>x. x"] nz
  have ex: "\<exists>st'. LoadBlockIndexGuts InsertBlockIndex hashMerkleRoot (\<lambda>x. x)
                (map (index_entry hashMerkleRoot)
                   [disk_block 3 2 2, disk_block 2 1 1, disk_block 1 0 0]
                 @ [\<lparr>entry_key = Some (DB_TXINDEX, 9), entry_value = None\<rparr>]) empty_index
                = Inr (True, st')
              \<and> linked hashMerkleRoot st' (disk_block 2 1 1)
              \<and> linked hashMerkleRoot st' (disk_block 3 2 2)
              \<and> fields_loaded hashMerkleRoot st' (disk_block 1 0 0)"
    by auto
  have run: "case LoadBlockIndexGuts InsertBlockIndex hashMerkleRoot (\<lambda>x. x)
                (map (index_entry hashMerkleRoot)
                   [disk_block 3 2 2, disk_block 2 1 1, disk_block 1 0 0]
                 @ [\<lparr>entry_key = Some (DB_TXINDEX, 9), entry_value = None\<rparr>]) empty_index of
          Inl c \<Rightarrow> False
        | Inr r \<Rightarrow>
            fst r
            \<and> mapBlockIndex (snd r) 3 = Some 0 \<and> mapBlockIndex (snd r) 2 = Some 1
            \<and> mapBlockIndex (snd r) 1 = Some 2
            \<and> pprev (heap (snd r) ! 0) = Some 1 \<and> pprev (heap (snd r) ! 1) = Some 2
            \<and> nHeight (heap (snd r) ! 0) = 2 \<and> nHeight (heap (snd r) ! 1) = 1
            \<and> nHeight (heap (snd r) ! 2) = 0"
    by code_simp
  from h0 h1 h2 h2' h3 h4 ex run show ?thesis by blast
qed

lemma LoadBlockIndexGuts_index_record:
  assumes "is_index_record e"
  shows "\<exists>d. entry_value e = Some d \<and>
           LoadBlockIndexGuts ins H U (e # rest) st =
             (case fst (ins (H d) st) of
                None \<Rightarrow> Inl BadPointer
              | Some p \<Rightarrow>
                  if \<not> p < length (heap (snd (ins (hashPrev d) (snd (ins (H d) st)))))
                  then Inl BadPointer
                  else LoadBlockIndexGuts ins H U rest
                         ((snd (ins (hashPrev d) (snd (ins (H d) st))))
                            \<lparr>heap := (heap (snd (ins (hashPrev d) (snd (ins (H d) st)))))
                               [p := assign_fields U
                                       (fst (ins (hashPrev d) (snd (ins (H d) st)))) d
                                       (heap (snd (ins (hashPrev d) (snd (ins (H d) st)))) ! p)]\<rparr>))"
proof -
  from assms obtain key where k: "entry_key e = Some key"
    by (cases "entry_key e") (simp_all add: is_index_record_def)
  with assms have tag: "fst key = DB_BLOCK_INDEX" and "entry_value e \<noteq> None"
    by (simp_all add: is_index_record_def)
  then obtain d where v: "entry_value e = Some d" by auto
  show ?thesis
    using k tag v by (simp add: Let_def)
qed

lemma LoadBlockIndexGuts_prefix:
  "list_all is_index_record pre \<Longrightarrow>
     LoadBlockIndexGuts ins H U (pre @ post) st =
       (case LoadBlockIndexGuts ins H U pre st of
          Inl c \<Rightarrow> Inl c
        | Inr r \<Rightarrow> if fst r then LoadBlockIndexGuts ins H U post (snd r) else Inr r)"
proof (induction pre arbitrary: st)
  case Nil
  show ?case by simp
next
  case (Cons e pre)
  from Cons.prems have ir: "is_index_record e" and more: "list_all is_index_record pre"
    by simp_all
  from LoadBlockIndexGuts_index_record [OF ir, of ins H U "pre @ post" st]
    LoadBlockIndexGuts_index_record [OF ir, of ins H U pre st]
  show ?case
    using Cons.IH [OF more]
    by (auto simp del: LoadBlockIndexGuts.simps split: option.splits)
qed

lemma LoadBlockIndexGuts_records_true:
  "list_all is_index_record pre \<Longrightarrow>
     (case LoadBlockIndexGuts ins H U pre st of Inl c \<Rightarrow> True | Inr r \<Rightarrow> fst r)"
proof (induction pre arbitrary: st)
  case Nil
  show ?case by simp
next
  case (Cons e pre)
  from Cons.prems have ir: "is_index_record e" and more: "list_all is_index_record pre"
    by simp_all
  from LoadBlockIndexGuts_index_record [OF ir, of ins H U pre st]
  show ?case
    using Cons.IH [OF more]
    by (auto simp del: LoadBlockIndexGuts.simps split: option.splits)
qed

text \<open>
  Claim C6. Whatever the callback: after any run of stored records, a position with
  the block-index tag whose value does not decode makes the call return false, with
  the index as the records before left it and whatever follows on the cursor
  unread; and a cursor that, after the run, is exhausted or stands on a key that
  does not decode or bears another tag gives the result of the run alone, which
  returns true with the index as the records left it. A run of stored records alone
  never returns false.
\<close>

theorem LoadBlockIndexGuts_stops:
  assumes "list_all is_index_record pre"
  shows "(entry_key e = Some (DB_BLOCK_INDEX, h) \<and> entry_value e = None \<longrightarrow>
            LoadBlockIndexGuts ins GetBlockHash UintToArith256 (pre @ e # rest) st =
              (case LoadBlockIndexGuts ins GetBlockHash UintToArith256 pre st of
                 Inl c \<Rightarrow> Inl c
               | Inr r \<Rightarrow> Inr (False, snd r)))
     \<and> (scan_ends post \<longrightarrow>
            LoadBlockIndexGuts ins GetBlockHash UintToArith256 (pre @ post) st =
              (case LoadBlockIndexGuts ins GetBlockHash UintToArith256 pre st of
                 Inl c \<Rightarrow> Inl c
               | Inr r \<Rightarrow> Inr (True, snd r)))
     \<and> (case LoadBlockIndexGuts ins GetBlockHash UintToArith256 pre st of
           Inl c \<Rightarrow> True
         | Inr r \<Rightarrow> fst r)"
proof (intro conjI impI)
  note through = LoadBlockIndexGuts_records_true [OF assms, of ins GetBlockHash UintToArith256 st]
  {
    assume "entry_key e = Some (DB_BLOCK_INDEX, h) \<and> entry_value e = None"
    then have bad: "\<And>s. LoadBlockIndexGuts ins GetBlockHash UintToArith256 (e # rest) s
                          = Inr (False, s)"
      by simp
    show "LoadBlockIndexGuts ins GetBlockHash UintToArith256 (pre @ e # rest) st =
              (case LoadBlockIndexGuts ins GetBlockHash UintToArith256 pre st of
                 Inl c \<Rightarrow> Inl c
               | Inr r \<Rightarrow> Inr (False, snd r))"
      using through
      by (auto simp add: LoadBlockIndexGuts_prefix [OF assms] bad
          simp del: LoadBlockIndexGuts.simps split: sum.splits)
  }
  {
    assume "scan_ends post"
    then have ends: "\<And>s. LoadBlockIndexGuts ins GetBlockHash UintToArith256 post s
                           = Inr (True, s)"
      by (rule LoadBlockIndexGuts_ends)
    show "LoadBlockIndexGuts ins GetBlockHash UintToArith256 (pre @ post) st =
              (case LoadBlockIndexGuts ins GetBlockHash UintToArith256 pre st of
                 Inl c \<Rightarrow> Inl c
               | Inr r \<Rightarrow> Inr (True, snd r))"
      using through
      by (auto simp add: LoadBlockIndexGuts_prefix [OF assms] ends
          simp del: LoadBlockIndexGuts.simps split: sum.splits)
  }
  show "case LoadBlockIndexGuts ins GetBlockHash UintToArith256 pre st of
           Inl c \<Rightarrow> True
         | Inr r \<Rightarrow> fst r"
    using through .
qed


theorem LoadBlockIndexGuts_stops_witness:
  "list_all is_index_record [index_entry hashMerkleRoot (disk_block 1 0 0)]
   \<and> entry_key \<lparr>entry_key = Some (DB_BLOCK_INDEX, 2), entry_value = None\<rparr>
       = Some (DB_BLOCK_INDEX, 2)
   \<and> entry_value \<lparr>entry_key = Some (DB_BLOCK_INDEX, 2), entry_value = None\<rparr> = None
   \<and> scan_ends [\<lparr>entry_key = Some (DB_TXINDEX, 9), entry_value = None\<rparr>]
   \<and> LoadBlockIndexGuts InsertBlockIndex hashMerkleRoot (\<lambda>x. x)
        ([index_entry hashMerkleRoot (disk_block 1 0 0)]
         @ \<lparr>entry_key = Some (DB_BLOCK_INDEX, 2), entry_value = None\<rparr>
         # [index_entry hashMerkleRoot (disk_block 3 2 2)]) empty_index
       = (case LoadBlockIndexGuts InsertBlockIndex hashMerkleRoot (\<lambda>x. x)
                 [index_entry hashMerkleRoot (disk_block 1 0 0)] empty_index of
            Inl c \<Rightarrow> Inl c
          | Inr r \<Rightarrow> Inr (False, snd r))
   \<and> (case LoadBlockIndexGuts InsertBlockIndex hashMerkleRoot (\<lambda>x. x)
              ([index_entry hashMerkleRoot (disk_block 1 0 0)]
               @ \<lparr>entry_key = Some (DB_BLOCK_INDEX, 2), entry_value = None\<rparr>
               # [index_entry hashMerkleRoot (disk_block 3 2 2)]) empty_index of
         Inl c \<Rightarrow> False
       | Inr r \<Rightarrow> \<not> fst r \<and> mapBlockIndex (snd r) 1 = Some 0
                  \<and> mapBlockIndex (snd r) 3 = None)
   \<and> (case LoadBlockIndexGuts InsertBlockIndex hashMerkleRoot (\<lambda>x. x)
              ([index_entry hashMerkleRoot (disk_block 1 0 0)]
               @ [\<lparr>entry_key = Some (DB_TXINDEX, 9), entry_value = None\<rparr>]) empty_index of
         Inl c \<Rightarrow> False
       | Inr r \<Rightarrow> fst r \<and> mapBlockIndex (snd r) 1 = Some 0)"
proof -
  let ?pre = "[index_entry hashMerkleRoot (disk_block 1 0 0)]"
  let ?bad = "\<lparr>entry_key = Some (DB_BLOCK_INDEX, 2), entry_value = None\<rparr>"
  let ?post = "[\<lparr>entry_key = Some (DB_TXINDEX, 9), entry_value = None\<rparr>]"
  have h: "list_all is_index_record ?pre"
    by (simp add: is_index_record_def index_entry_def)
  have e: "entry_key ?bad = Some (DB_BLOCK_INDEX, 2) \<and> entry_value ?bad = None"
    by simp
  have s: "scan_ends ?post"
    by (simp add: scan_ends_def DB_TXINDEX_def DB_BLOCK_INDEX_def)
  note t = LoadBlockIndexGuts_stops [OF h, of ?bad 2 InsertBlockIndex hashMerkleRoot "\<lambda>x. x"
      "[index_entry hashMerkleRoot (disk_block 3 2 2)]" empty_index ?post]
  have t1: "LoadBlockIndexGuts InsertBlockIndex hashMerkleRoot (\<lambda>x. x)
        (?pre @ ?bad # [index_entry hashMerkleRoot (disk_block 3 2 2)]) empty_index
       = (case LoadBlockIndexGuts InsertBlockIndex hashMerkleRoot (\<lambda>x. x) ?pre empty_index of
            Inl c \<Rightarrow> Inl c
          | Inr r \<Rightarrow> Inr (False, snd r))"
    using t [THEN conjunct1] e by blast
  have run1: "case LoadBlockIndexGuts InsertBlockIndex hashMerkleRoot (\<lambda>x. x)
              (?pre @ ?bad # [index_entry hashMerkleRoot (disk_block 3 2 2)]) empty_index of
         Inl c \<Rightarrow> False
       | Inr r \<Rightarrow> \<not> fst r \<and> mapBlockIndex (snd r) 1 = Some 0
                  \<and> mapBlockIndex (snd r) 3 = None"
    by code_simp
  have t2: "LoadBlockIndexGuts InsertBlockIndex hashMerkleRoot (\<lambda>x. x) (?pre @ ?post) empty_index
       = (case LoadBlockIndexGuts InsertBlockIndex hashMerkleRoot (\<lambda>x. x) ?pre empty_index of
            Inl c \<Rightarrow> Inl c
          | Inr r \<Rightarrow> Inr (True, snd r))"
    using t [THEN conjunct2, THEN conjunct1] s by blast
  have "case LoadBlockIndexGuts InsertBlockIndex hashMerkleRoot (\<lambda>x. x) ?pre empty_index of
         Inl c \<Rightarrow> False
       | Inr r \<Rightarrow> mapBlockIndex (snd r) 1 = Some 0"
    by code_simp
  with t2 have run2: "case LoadBlockIndexGuts InsertBlockIndex hashMerkleRoot (\<lambda>x. x)
              (?pre @ ?post) empty_index of
         Inl c \<Rightarrow> False
       | Inr r \<Rightarrow> fst r \<and> mapBlockIndex (snd r) 1 = Some 0"
    by (auto simp del: LoadBlockIndexGuts.simps split: sum.splits)
  from h e s t1 run1 run2 show ?thesis by blast
qed

subsection \<open>Balance index: lookups\<close>

lemma ReadDB_record:
  "ReadDB HandleError db address h 0 =
     (case surfacing_fault HandleError db address h of
        Some status \<Rightarrow> Inl status
      | None \<Rightarrow>
          (case balance_record db address h of
             None \<Rightarrow> Inr (False, 0)
           | Some strValue \<Rightarrow> Inr (True, stream_to_int64 strValue 0)))"
  by (simp add: ReadDB_def Get_def balance_record_def surfacing_fault_def
      split: get_result.splits)

lemma record_no_fault:
  "balance_record db address h = Some s \<Longrightarrow> surfacing_fault HandleError db address h = None"
  by (simp add: balance_record_def surfacing_fault_def split: get_result.splits)

lemma scan_negative: "h < 0 \<Longrightarrow> GetBalance_scan HandleError db address h = Inr 0"
  by (subst GetBalance_scan.simps) simp

lemma scan_found:
  "0 \<le> h \<Longrightarrow> balance_record db address h = Some s \<Longrightarrow>
     GetBalance_scan HandleError db address h = Inr (stream_to_int64 s 0)"
  by (subst GetBalance_scan.simps) (simp add: ReadDB_record record_no_fault)

lemma scan_thrown:
  "0 \<le> h \<Longrightarrow> surfacing_fault HandleError db address h = Some status \<Longrightarrow>
     GetBalance_scan HandleError db address h = Inl status"
  by (subst GetBalance_scan.simps) (simp add: ReadDB_record)

lemma scan_missing:
  "0 \<le> h \<Longrightarrow> balance_record db address h = None \<Longrightarrow>
     surfacing_fault HandleError db address h = None \<Longrightarrow>
     GetBalance_scan HandleError db address h = GetBalance_scan HandleError db address (h - 1)"
  by (subst GetBalance_scan.simps) (simp add: ReadDB_record)

lemma recorded_heights_step:
  "0 \<le> h \<Longrightarrow> recorded_heights db address h =
     recorded_heights db address (h - 1)
       @ (if balance_record db address h \<noteq> None then [h] else [])"
proof -
  assume "0 \<le> h"
  then have "[0..h] = [0..h - 1] @ [h]"
    by (simp add: upto_rec2)
  then show ?thesis by (simp add: recorded_heights_def)
qed

lemma recorded_heights_bound: "k \<in> set (recorded_heights db address h) \<Longrightarrow> k \<le> h"
  by (simp add: recorded_heights_def)

lemma surfacing_faults_step:
  "0 \<le> h \<Longrightarrow> surfacing_faults HandleError db address h =
     surfacing_faults HandleError db address (h - 1)
       @ (case surfacing_fault HandleError db address h of
            None \<Rightarrow> []
          | Some status \<Rightarrow> [(h, status)])"
proof -
  assume "0 \<le> h"
  then have "[0..h] = [0..h - 1] @ [h]"
    by (simp add: upto_rec2)
  then show ?thesis
    by (simp add: surfacing_faults_def List.map_filter_def split: option.splits)
qed

lemma surfacing_faults_bound:
  "(k, status) \<in> set (surfacing_faults HandleError db address h) \<Longrightarrow> k \<le> h"
  by (auto simp: surfacing_faults_def List.map_filter_def)

lemma surfacing_faults_negative: "h < 0 \<Longrightarrow> surfacing_faults HandleError db address h = []"
  by (simp add: surfacing_faults_def List.map_filter_def)

lemma recorded_heights_Max:
  "recorded_heights db address h \<noteq> [] \<Longrightarrow> Max (set (recorded_heights db address h)) \<le> h"
  using recorded_heights_bound [of _ db address h] by (simp add: Max_le_iff)

lemma latest_balance_step_missing:
  "0 \<le> h \<Longrightarrow> balance_record db address h = None \<Longrightarrow>
     latest_balance db address h = latest_balance db address (h - 1)"
  using recorded_heights_step [of h db address] by (simp add: latest_balance_def)

lemma recorded_heights_found:
  assumes "0 \<le> h" and "balance_record db address h = Some s"
  shows "recorded_heights db address h \<noteq> []
     \<and> Max (set (recorded_heights db address h)) = h"
proof -
  let ?L = "recorded_heights db address (h - 1)"
  have rh: "recorded_heights db address h = ?L @ [h]"
    using recorded_heights_step [OF assms(1), of db address] assms(2) by simp
  have "\<forall>k \<in> set ?L. k \<le> h"
    using recorded_heights_bound [of _ db address "h - 1"] by fastforce
  then have "Max (set (?L @ [h])) = h"
    by (intro Max_eqI) auto
  then show ?thesis using rh by simp
qed

lemma latest_balance_found:
  "0 \<le> h \<Longrightarrow> balance_record db address h = Some s \<Longrightarrow>
     latest_balance db address h = stream_to_int64 s 0"
  using recorded_heights_found [of h db address s] by (simp add: latest_balance_def)

lemma scan_outcome:
  "GetBalance_scan HandleError db address h = lookup_outcome HandleError db address h"
proof (induction HandleError db address h rule: GetBalance_scan.induct)
  case (1 HandleError db address h)
  show ?case
  proof (cases "0 \<le> h")
    case False
    then have "recorded_heights db address h = []"
      by (simp add: recorded_heights_def)
    with False show ?thesis
      by (simp add: scan_negative lookup_outcome_def latest_balance_def surfacing_faults_negative)
  next
    case nonneg: True
    let ?T = "surfacing_faults HandleError db address (h - 1)"
    let ?R = "recorded_heights db address (h - 1)"
    show ?thesis
    proof (cases "surfacing_fault HandleError db address h")
      case (Some status)
      then have norec: "balance_record db address h = None"
        using record_no_fault [of db address h _ HandleError] by (cases "balance_record db address h") auto
      have T: "rev (surfacing_faults HandleError db address h) = (h, status) # rev ?T"
        using surfacing_faults_step [OF nonneg, of HandleError db address] Some by simp
      have R: "recorded_heights db address h = ?R"
        using recorded_heights_step [OF nonneg, of db address] norec by simp
      have "?R \<noteq> [] \<Longrightarrow> \<not> h < Max (set ?R)"
      proof -
        assume "?R \<noteq> []"
        then have "Max (set ?R) \<le> h - 1" by (rule recorded_heights_Max)
        then show "\<not> h < Max (set ?R)" by arith
      qed
      then have "lookup_outcome HandleError db address h = Inl status"
        by (auto simp: lookup_outcome_def T R)
      then show ?thesis
        using nonneg Some by (simp add: scan_thrown)
    next
      case nofault: None
      have T: "surfacing_faults HandleError db address h = ?T"
        using surfacing_faults_step [OF nonneg, of HandleError db address] nofault by simp
      show ?thesis
      proof (cases "balance_record db address h")
        case None
        have R: "recorded_heights db address h = ?R"
          using recorded_heights_step [OF nonneg, of db address] None by simp
        have "ReadDB HandleError db address h 0 = Inr (False, 0)"
          using None nofault by (simp add: ReadDB_record)
        then have "GetBalance_scan HandleError db address (h - 1)
                     = lookup_outcome HandleError db address (h - 1)"
          using "1.IH" [OF nonneg] by simp
        moreover have "lookup_outcome HandleError db address h
                     = lookup_outcome HandleError db address (h - 1)"
          unfolding lookup_outcome_def T R latest_balance_step_missing [OF nonneg None]
          by (rule refl)
        ultimately show ?thesis
          using nonneg None nofault by (simp add: scan_missing)
      next
        case (Some s)
        note top = recorded_heights_found [OF nonneg Some]
        have "\<And>k f lower. rev ?T = (k, f) # lower \<Longrightarrow> k < h"
        proof -
          fix k f lower
          assume "rev ?T = (k, f) # lower"
          then have "(k, f) \<in> set ?T"
            by (metis list.set_intros(1) set_rev)
          then show "k < h"
            using surfacing_faults_bound [of k f HandleError db address "h - 1"] by simp
        qed
        then have "lookup_outcome HandleError db address h = Inr (latest_balance db address h)"
          using top by (auto simp: lookup_outcome_def T split: list.splits)
        then show ?thesis
          using nonneg Some by (simp add: scan_found latest_balance_found)
      qed
    qed
  qed
qed

lemma GetBalance_outcome:
  "GetBalance HandleError st address height =
     (case cacheBalance st address of
        Some amount \<Rightarrow> Inr amount
      | None \<Rightarrow> lookup_outcome HandleError (pdb st) address height)"
  by (simp add: GetBalance_def scan_outcome split: option.splits)

lemma lookup_outcome_returns:
  "lookup_outcome HandleError db address height = Inr v \<Longrightarrow>
     v = latest_balance db address height"
  by (auto simp: lookup_outcome_def split: list.splits if_splits)

lemma GetBalance_returns:
  "GetBalance HandleError st address height = Inr v \<Longrightarrow>
     v = balance_before st address height"
  by (auto simp: GetBalance_outcome balance_before_def lookup_outcome_returns
      split: option.splits)

lemma surfacing_faults_none:
  "(\<And>k status. table db k = Fault status \<Longrightarrow> \<not> HandleError status) \<Longrightarrow>
     surfacing_faults HandleError db address height = []"
proof -
  assume a: "\<And>k status. table db k = Fault status \<Longrightarrow> \<not> HandleError status"
  have "\<And>h. surfacing_fault HandleError db address h = None"
    using a by (auto simp: surfacing_fault_def split: get_result.splits)
  then show ?thesis
    by (simp add: surfacing_faults_def List.map_filter_def)
qed

lemma GetBalance_handler_returns:
  "GetBalance (\<lambda>status. False) st address height = Inr (balance_before st address height)"
  by (simp add: GetBalance_outcome balance_before_def lookup_outcome_def
      surfacing_faults_none split: option.splits)

lemma balance_record_faults:
  "balance_record (faults_as_not_found db) address h = balance_record db address h"
  by (simp add: balance_record_def faults_as_not_found_def split: get_result.splits)

lemma latest_balance_faults:
  "latest_balance (faults_as_not_found db) address h = latest_balance db address h"
  by (simp add: latest_balance_def recorded_heights_def balance_record_faults)

lemma scan_reaches:
  "0 \<le> k \<Longrightarrow> k \<le> h \<Longrightarrow>
   (\<And>j. k < j \<Longrightarrow> j \<le> h \<Longrightarrow>
      balance_record db address j = None \<and> surfacing_fault HandleError db address j = None) \<Longrightarrow>
   GetBalance_scan HandleError db address h = GetBalance_scan HandleError db address k"
proof (induction "nat (h - k)" arbitrary: h)
  case 0
  then have "h = k" by simp
  then show ?case by simp
next
  case (Suc n)
  then have above: "k < h" and nonneg: "0 \<le> h" by simp_all
  have here: "balance_record db address h = None \<and> surfacing_fault HandleError db address h = None"
    using Suc.prems(3) [OF above] by simp
  have "GetBalance_scan HandleError db address (h - 1) = GetBalance_scan HandleError db address k"
  proof (rule Suc.hyps(1))
    show "n = nat (h - 1 - k)" using Suc.hyps(2) by simp
    show "0 \<le> k" by fact
    show "k \<le> h - 1" using above by simp
    fix j
    assume "k < j" and "j \<le> h - 1"
    then show "balance_record db address j = None \<and> surfacing_fault HandleError db address j = None"
      using Suc.prems(3) [of j] by simp
  qed
  then show ?case
    using here nonneg by (simp add: scan_missing)
qed

lemma scan_fault:
  assumes "0 \<le> k" and "table db (address @ ''_'' @ int_to_stream k) = Fault status"
  shows "GetBalance_scan HandleError db address k =
           (if HandleError status then Inl status
            else GetBalance_scan HandleError db address (k - 1))"
proof -
  have r: "balance_record db address k = None"
    using assms(2) by (simp add: balance_record_def)
  have f: "surfacing_fault HandleError db address k
             = (if HandleError status then Some status else None)"
    using assms(2) by (simp add: surfacing_fault_def)
  show ?thesis
    using assms(1) r f by (simp add: scan_thrown scan_missing)
qed

text \<open>
  Claim C4. \<^verbatim>\<open>GetBalance\<close> returns the cached amount when the cache holds the address,
  whatever the height. Otherwise it looks the engine up from the height asked for
  down to 0: it returns the amount of the record at the largest recorded height, and 0
  when there is no record at any of these heights, unless a read above every record
  faults and the error handler throws, which leaves the call with the exception. With
  an error handler that returns, the call always returns, the amount of the latest
  record or 0. With records 100 at height 5 and 40 at height 9 and an empty cache, it
  returns 100 at height 7, 0 at height 4 and 40 at height 9.
\<close>

theorem GetBalance_lookup:
  "GetBalance HandleError st address height =
     (case cacheBalance st address of
        Some amount \<Rightarrow> Inr amount
      | None \<Rightarrow> lookup_outcome HandleError (pdb st) address height)
   \<and> GetBalance (\<lambda>status. False) st address height =
       Inr (case cacheBalance st address of
              Some amount \<Rightarrow> amount
            | None \<Rightarrow> latest_balance (pdb st) address height)
   \<and> GetBalance HandleError (st\<lparr>cacheBalance := (cacheBalance st)(address \<mapsto> amount)\<rparr>)
         address height
       = Inr amount
   \<and> GetBalance HandleError
        \<lparr>cacheBalance = Map.empty,
         pdb = \<lparr>table = (\<lambda>k. NotFound)(address @ ''_5'' := Found ''100'',
                                        address @ ''_9'' := Found ''40''),
                put_outcomes = outcomes\<rparr>\<rparr> address 7 = Inr 100
   \<and> GetBalance HandleError
        \<lparr>cacheBalance = Map.empty,
         pdb = \<lparr>table = (\<lambda>k. NotFound)(address @ ''_5'' := Found ''100'',
                                        address @ ''_9'' := Found ''40''),
                put_outcomes = outcomes\<rparr>\<rparr> address 4 = Inr 0
   \<and> GetBalance HandleError
        \<lparr>cacheBalance = Map.empty,
         pdb = \<lparr>table = (\<lambda>k. NotFound)(address @ ''_5'' := Found ''100'',
                                        address @ ''_9'' := Found ''40''),
                put_outcomes = outcomes\<rparr>\<rparr> address 9 = Inr 40"
proof -
  let ?db = "\<lparr>table = (\<lambda>k. NotFound)(address @ ''_5'' := Found ''100'',
                                         address @ ''_9'' := Found ''40''),
              put_outcomes = outcomes\<rparr>"
  have key: "\<And>h. int_to_stream h = ''5'' \<Longrightarrow> balance_record ?db address h = Some ''100''"
    "\<And>h. int_to_stream h = ''9'' \<Longrightarrow> balance_record ?db address h = Some ''40''"
    "\<And>h. int_to_stream h \<noteq> ''5'' \<Longrightarrow> int_to_stream h \<noteq> ''9''
          \<Longrightarrow> balance_record ?db address h = None"
    by (simp_all add: balance_record_def)
  have nf: "\<And>h. surfacing_fault HandleError ?db address h = None"
    by (simp add: surfacing_fault_def)
  have s: "int_to_stream 0 = ''0''" "int_to_stream 1 = ''1''" "int_to_stream 2 = ''2''"
    "int_to_stream 3 = ''3''" "int_to_stream 4 = ''4''" "int_to_stream 5 = ''5''"
    "int_to_stream 6 = ''6''" "int_to_stream 7 = ''7''" "int_to_stream 8 = ''8''"
    "int_to_stream 9 = ''9''"
    by (simp_all add: int_to_stream_def digits.simps digit_char_def)
  have r: "balance_record ?db address 0 = None" "balance_record ?db address 1 = None"
    "balance_record ?db address 2 = None" "balance_record ?db address 3 = None"
    "balance_record ?db address 4 = None" "balance_record ?db address 5 = Some ''100''"
    "balance_record ?db address 6 = None" "balance_record ?db address 7 = None"
    "balance_record ?db address 8 = None" "balance_record ?db address 9 = Some ''40''"
    by (simp_all add: key s)
  have v: "stream_to_int64 ''100'' 0 = 100" "stream_to_int64 ''40'' 0 = 40"
    by (simp_all add: stream_to_int64_def isspace_def digit_val_def)
  have e7: "GetBalance_scan HandleError ?db address 7 = Inr 100"
    by (simp add: scan_missing scan_found r v nf)
  have e4: "GetBalance_scan HandleError ?db address 4 = Inr 0"
    by (simp add: scan_missing scan_negative r nf)
  have e9: "GetBalance_scan HandleError ?db address 9 = Inr 40"
    by (simp add: scan_found r v)
  have general: "GetBalance HandleError st address height =
     (case cacheBalance st address of
        Some amount \<Rightarrow> Inr amount
      | None \<Rightarrow> lookup_outcome HandleError (pdb st) address height)"
    by (rule GetBalance_outcome)
  have returning: "GetBalance (\<lambda>status. False) st address height =
       Inr (case cacheBalance st address of
              Some amount \<Rightarrow> amount
            | None \<Rightarrow> latest_balance (pdb st) address height)"
    using GetBalance_handler_returns [of st address height] by (simp add: balance_before_def)
  have hit: "GetBalance HandleError (st\<lparr>cacheBalance := (cacheBalance st)(address \<mapsto> amount)\<rparr>)
         address height = Inr amount"
    by (simp add: GetBalance_def)
  have ex: "GetBalance HandleError \<lparr>cacheBalance = Map.empty, pdb = ?db\<rparr> address 7 = Inr 100"
    "GetBalance HandleError \<lparr>cacheBalance = Map.empty, pdb = ?db\<rparr> address 4 = Inr 0"
    "GetBalance HandleError \<lparr>cacheBalance = Map.empty, pdb = ?db\<rparr> address 9 = Inr 40"
    using e7 e4 e9 by (simp_all add: GetBalance_def)
  from general returning hit ex show ?thesis by blast
qed

text \<open>
  Claim C8, as stated, fails. Take a record of 100 at height 5, a read at height 7
  that faults with an I/O error, and a lookup at height 7. With an error handler that
  throws, \<^verbatim>\<open>GetBalance\<close> is left by the exception: no amount is returned and the
  fault is surfaced. With an error handler that returns, \<^verbatim>\<open>GetBalance\<close> returns 100,
  not 0. An address that was never funded gets 0.
\<close>

theorem GetBalance_fault_counterexample:
  "Get \<lparr>table = (\<lambda>k. NotFound)(''A_5'' := Found ''100'', ''A_7'' := Fault IOError),
        put_outcomes = []\<rparr> (''A'' @ ''_'' @ int_to_stream 7) = Fault IOError
   \<and> GetBalance (\<lambda>status. True)
        \<lparr>cacheBalance = Map.empty,
         pdb = \<lparr>table = (\<lambda>k. NotFound)(''A_5'' := Found ''100'', ''A_7'' := Fault IOError),
                put_outcomes = []\<rparr>\<rparr> ''A'' 7 = Inl IOError
   \<and> GetBalance (\<lambda>status. False)
        \<lparr>cacheBalance = Map.empty,
         pdb = \<lparr>table = (\<lambda>k. NotFound)(''A_5'' := Found ''100'', ''A_7'' := Fault IOError),
                put_outcomes = []\<rparr>\<rparr> ''A'' 7 = Inr 100
   \<and> GetBalance (\<lambda>status. True)
        \<lparr>cacheBalance = Map.empty,
         pdb = \<lparr>table = (\<lambda>k. NotFound)(''A_5'' := Found ''100'', ''A_7'' := Fault IOError),
                put_outcomes = []\<rparr>\<rparr> ''A'' 7 \<noteq> Inr 0
   \<and> GetBalance (\<lambda>status. False)
        \<lparr>cacheBalance = Map.empty,
         pdb = \<lparr>table = (\<lambda>k. NotFound)(''A_5'' := Found ''100'', ''A_7'' := Fault IOError),
                put_outcomes = []\<rparr>\<rparr> ''A'' 7 \<noteq> Inr 0
   \<and> GetBalance (\<lambda>status. True)
        \<lparr>cacheBalance = Map.empty,
         pdb = \<lparr>table = (\<lambda>k. NotFound)(''A_5'' := Found ''100'', ''A_7'' := Fault IOError),
                put_outcomes = []\<rparr>\<rparr> ''B'' 7 = Inr 0
   \<and> GetBalance (\<lambda>status. False)
        \<lparr>cacheBalance = Map.empty,
         pdb = \<lparr>table = (\<lambda>k. NotFound)(''A_5'' := Found ''100'', ''A_7'' := Fault IOError),
                put_outcomes = []\<rparr>\<rparr> ''B'' 7 = Inr 0"
  by code_simp

text \<open>
  Claim C8, amended. A read of the lookup that faults goes to the error handler. Take
  a lookup that misses the cache and a height that its scan reaches (no height above
  it has a record or surfaces a fault) and whose read faults: when the handler throws
  for the status, \<^verbatim>\<open>GetBalance\<close> is left by the exception for that status; when the
  handler returns, \<^verbatim>\<open>GetBalance\<close> gives what it gives from the height below, so the
  height counts as one without a record. When the handler returns for every fault of
  the engine, \<^verbatim>\<open>GetBalance\<close> returns what it returns on the engine whose faulting reads
  answer not-found instead: the cached amount, or the amount of the nearest readable
  record, or 0 when there is none; the fault is then not a distinct outcome.
\<close>

theorem GetBalance_fault_handled:
  "(cacheBalance st address = None \<and> 0 \<le> k \<and> k \<le> height
      \<and> table (pdb st) (address @ ''_'' @ int_to_stream k) = Fault status
      \<and> (\<forall>j. k < j \<and> j \<le> height \<longrightarrow>
             balance_record (pdb st) address j = None
             \<and> surfacing_fault HandleError (pdb st) address j = None)
      \<longrightarrow> GetBalance HandleError st address height =
            (if HandleError status then Inl status
             else GetBalance HandleError st address (k - 1)))
   \<and> ((\<forall>key status. table (pdb st) key = Fault status \<longrightarrow> \<not> HandleError status)
      \<longrightarrow> GetBalance HandleError st address height
            = GetBalance HandleError (st\<lparr>pdb := faults_as_not_found (pdb st)\<rparr>) address height
          \<and> GetBalance HandleError st address height =
              Inr (case cacheBalance st address of
                     Some amount \<Rightarrow> amount
                   | None \<Rightarrow> latest_balance (faults_as_not_found (pdb st)) address height))"
proof (intro conjI impI)
  assume a: "cacheBalance st address = None \<and> 0 \<le> k \<and> k \<le> height
      \<and> table (pdb st) (address @ ''_'' @ int_to_stream k) = Fault status
      \<and> (\<forall>j. k < j \<and> j \<le> height \<longrightarrow>
             balance_record (pdb st) address j = None
             \<and> surfacing_fault HandleError (pdb st) address j = None)"
  then have "GetBalance_scan HandleError (pdb st) address height
               = GetBalance_scan HandleError (pdb st) address k"
    by (intro scan_reaches) simp_all
  also have "\<dots> = (if HandleError status then Inl status
                    else GetBalance_scan HandleError (pdb st) address (k - 1))"
    using a by (intro scan_fault) simp_all
  finally show "GetBalance HandleError st address height =
            (if HandleError status then Inl status
             else GetBalance HandleError st address (k - 1))"
    using a by (simp add: GetBalance_def)
next
  assume quiet: "\<forall>key status. table (pdb st) key = Fault status \<longrightarrow> \<not> HandleError status"
  then have none: "surfacing_faults HandleError (pdb st) address height = []"
    by (intro surfacing_faults_none) blast
  have none': "surfacing_faults HandleError (faults_as_not_found (pdb st)) address height = []"
    by (intro surfacing_faults_none)
       (simp add: faults_as_not_found_def split: get_result.splits)
  have 1: "GetBalance HandleError st address height =
              Inr (case cacheBalance st address of
                     Some amount \<Rightarrow> amount
                   | None \<Rightarrow> latest_balance (pdb st) address height)"
    by (simp add: GetBalance_outcome lookup_outcome_def none split: option.splits)
  have 2: "GetBalance HandleError (st\<lparr>pdb := faults_as_not_found (pdb st)\<rparr>) address height =
              Inr (case cacheBalance st address of
                     Some amount \<Rightarrow> amount
                   | None \<Rightarrow> latest_balance (faults_as_not_found (pdb st)) address height)"
    by (simp add: GetBalance_outcome lookup_outcome_def none' split: option.splits)
  show "GetBalance HandleError st address height
            = GetBalance HandleError (st\<lparr>pdb := faults_as_not_found (pdb st)\<rparr>) address height"
    using 1 2 by (simp add: latest_balance_faults split: option.splits)
  show "GetBalance HandleError st address height =
              Inr (case cacheBalance st address of
                     Some amount \<Rightarrow> amount
                   | None \<Rightarrow> latest_balance (faults_as_not_found (pdb st)) address height)"
    using 1 by (simp add: latest_balance_faults split: option.splits)
qed

theorem GetBalance_fault_handled_witness:
  "cacheBalance
      \<lparr>cacheBalance = Map.empty,
       pdb = \<lparr>table = (\<lambda>k. NotFound)(''A_5'' := Found ''100'', ''A_7'' := Fault IOError),
              put_outcomes = []\<rparr>\<rparr> ''A'' = None
   \<and> table \<lparr>table = (\<lambda>k. NotFound)(''A_5'' := Found ''100'', ''A_7'' := Fault IOError),
            put_outcomes = []\<rparr> (''A'' @ ''_'' @ int_to_stream 7) = Fault IOError
   \<and> GetBalance (\<lambda>status. True)
        \<lparr>cacheBalance = Map.empty,
         pdb = \<lparr>table = (\<lambda>k. NotFound)(''A_5'' := Found ''100'', ''A_7'' := Fault IOError),
                put_outcomes = []\<rparr>\<rparr> ''A'' 8 = Inl IOError
   \<and> GetBalance (\<lambda>status. status = Corruption)
        \<lparr>cacheBalance = Map.empty,
         pdb = \<lparr>table = (\<lambda>k. NotFound)(''A_5'' := Found ''100'', ''A_7'' := Fault IOError),
                put_outcomes = []\<rparr>\<rparr> ''A'' 8
       = GetBalance (\<lambda>status. status = Corruption)
           \<lparr>cacheBalance = Map.empty,
            pdb = \<lparr>table = (\<lambda>k. NotFound)(''A_5'' := Found ''100'', ''A_7'' := Fault IOError),
                   put_outcomes = []\<rparr>\<rparr> ''A'' 6
   \<and> GetBalance (\<lambda>status. status = Corruption)
        \<lparr>cacheBalance = Map.empty,
         pdb = \<lparr>table = (\<lambda>k. NotFound)(''A_5'' := Found ''100'', ''A_7'' := Fault IOError),
                put_outcomes = []\<rparr>\<rparr> ''A'' 8
       = GetBalance (\<lambda>status. status = Corruption)
           \<lparr>cacheBalance = Map.empty,
            pdb = faults_as_not_found
                    \<lparr>table = (\<lambda>k. NotFound)(''A_5'' := Found ''100'', ''A_7'' := Fault IOError),
                     put_outcomes = []\<rparr>\<rparr> ''A'' 8
   \<and> GetBalance (\<lambda>status. status = Corruption)
        \<lparr>cacheBalance = Map.empty,
         pdb = \<lparr>table = (\<lambda>k. NotFound)(''A_5'' := Found ''100'', ''A_7'' := Fault IOError),
                put_outcomes = []\<rparr>\<rparr> ''A'' 8 = Inr 100"
proof -
  let ?db = "\<lparr>table = (\<lambda>k. NotFound)(''A_5'' := Found ''100'', ''A_7'' := Fault IOError),
              put_outcomes = []\<rparr>"
  let ?st = "\<lparr>cacheBalance = Map.empty, pdb = ?db\<rparr>"
  have miss: "cacheBalance ?st ''A'' = None" by simp
  have at7: "table (pdb ?st) (''A'' @ ''_'' @ int_to_stream 7) = Fault IOError" by code_simp
  have s8: "int_to_stream 8 = ''8''"
    by (simp add: int_to_stream_def digits.simps digit_char_def)
  have above: "\<forall>j. 7 < j \<and> j \<le> 8 \<longrightarrow>
      balance_record (pdb ?st) ''A'' j = None \<and> surfacing_fault H (pdb ?st) ''A'' j = None" for H
  proof (intro allI impI)
    fix j :: int
    assume "7 < j \<and> j \<le> 8"
    then have "j = 8" by arith
    then show "balance_record (pdb ?st) ''A'' j = None \<and> surfacing_fault H (pdb ?st) ''A'' j = None"
      by (simp add: balance_record_def surfacing_fault_def s8)
  qed
  have quiet: "\<forall>key status. table (pdb ?st) key = Fault status \<longrightarrow> \<not> status = Corruption"
    by simp
  note t1 = GetBalance_fault_handled [of ?st "''A''" 7 8 IOError "\<lambda>status. True",
      THEN conjunct1, rule_format]
  have throws: "GetBalance (\<lambda>status. True) ?st ''A'' 8 = Inl IOError"
    using t1 miss at7 above [of "\<lambda>status. True"] by simp
  note t2 = GetBalance_fault_handled [of ?st "''A''" 7 8 IOError "\<lambda>status. status = Corruption",
      THEN conjunct1, rule_format]
  have goes_on: "GetBalance (\<lambda>status. status = Corruption) ?st ''A'' 8
                   = GetBalance (\<lambda>status. status = Corruption) ?st ''A'' 6"
    using t2 miss at7 above [of "\<lambda>status. status = Corruption"] by simp
  note t3 = GetBalance_fault_handled [of ?st "''A''" 7 8 IOError "\<lambda>status. status = Corruption",
      THEN conjunct2, THEN mp, OF quiet]
  have same: "GetBalance (\<lambda>status. status = Corruption) ?st ''A'' 8
                = GetBalance (\<lambda>status. status = Corruption)
                    \<lparr>cacheBalance = Map.empty, pdb = faults_as_not_found ?db\<rparr> ''A'' 8"
    using t3 [THEN conjunct1] by simp
  have val: "GetBalance (\<lambda>status. status = Corruption) ?st ''A'' 6 = Inr 100"
    by code_simp
  show ?thesis
    using miss at7 throws goes_on same val by simp
qed

subsection \<open>Balance index: updates\<close>

lemma WriteDB_accepted:
  "put_outcomes db = [] \<or> (\<exists>later. put_outcomes db = None # later) \<Longrightarrow>
     WriteDB HandleError address height val db = (Inr True, record_balance address height val db)"
  by (auto simp: WriteDB_def Put_def record_balance_def Let_def)

lemma WriteDB_refused:
  "put_outcomes db = Some status # later \<Longrightarrow>
     WriteDB HandleError address height val db =
       (if HandleError status then Inl status else Inr False, db\<lparr>put_outcomes := later\<rparr>)"
  by (simp add: WriteDB_def Put_def Let_def)

lemma WriteDB_written:
  "fst (WriteDB HandleError address height val db) = Inr True \<Longrightarrow>
     snd (WriteDB HandleError address height val db) = record_balance address height val db"
  by (auto simp: WriteDB_def Put_def record_balance_def Let_def
      split: list.splits option.splits if_splits)

lemma vout_run:
  "UpdateBalance_vout HandleError S height outs st
     = run_changes HandleError height (output_changes S outs) st"
  by (induction HandleError S height outs st rule: UpdateBalance_vout.induct)
     (simp_all add: output_changes_def Let_def split: sum.splits)

lemma run_changes_no_crash: "run_changes HandleError height changes st \<noteq> Inl (Crash c)"
  by (induction HandleError height changes st rule: run_changes.induct)
     (simp_all add: Let_def split: sum.splits)

lemma vin_run:
  "0 < height \<Longrightarrow> \<forall>c. UpdateBalance_vin HandleError S inputs height txins st \<noteq> Inl (Crash c) \<Longrightarrow>
     UpdateBalance_vin HandleError S inputs height txins st
       = run_changes HandleError height (input_changes S inputs txins) st"
proof (induction txins arbitrary: st)
  case Nil
  then show ?case by (simp add: input_changes_def List.map_filter_simps)
next
  case (Cons txin rest)
  from Cons.prems(2) obtain pcoins where pc: "inputs (prevout_hash txin) = Some pcoins"
    by (cases "inputs (prevout_hash txin)") simp_all
  from Cons.prems(2) pc have rng: "unat (prevout_n txin) < length (coins_vout pcoins)"
    by (auto split: if_splits)
  define out where "out = coins_vout pcoins ! unat (prevout_n txin)"
  define address where "address = S (scriptPubKey out)"
  have so: "spent_output inputs txin = Some out"
    by (simp add: spent_output_def pc rng out_def)
  have ic: "input_changes S inputs (txin # rest) =
              (address, - nValue out) # input_changes S inputs rest"
    by (simp add: input_changes_def List.map_filter_simps so address_def)
  show ?case
  proof (cases "GetBalance HandleError st address (height - 1)")
    case (Inl status)
    then show ?thesis
      using Cons.prems(1) pc rng
      by (simp add: ic Let_def out_def [symmetric] address_def [symmetric])
  next
    case (Inr before)
    define val where "val = before - nValue out"
    define st1 where "st1 = st\<lparr>cacheBalance := (cacheBalance st)(address \<mapsto> val)\<rparr>"
    define w where "w = WriteDB HandleError address height val (pdb st1)"
    have unfold: "UpdateBalance_vin HandleError S inputs height (txin # rest) st =
        (case fst w of
           Inl status \<Rightarrow> Inl (Throw status (st1\<lparr>pdb := snd w\<rparr>))
         | Inr written \<Rightarrow>
             if \<not> written then Inr (False, st1\<lparr>pdb := snd w\<rparr>)
             else UpdateBalance_vin HandleError S inputs height rest (st1\<lparr>pdb := snd w\<rparr>))"
      using Cons.prems(1) pc rng Inr
      by (simp add: Let_def out_def [symmetric] address_def [symmetric] val_def st1_def w_def
          split: sum.splits)
    have run: "run_changes HandleError height ((address, - nValue out) # input_changes S inputs rest) st =
        (case fst w of
           Inl status \<Rightarrow> Inl (Throw status (st1\<lparr>pdb := snd w\<rparr>))
         | Inr written \<Rightarrow>
             if \<not> written then Inr (False, st1\<lparr>pdb := snd w\<rparr>)
             else run_changes HandleError height (input_changes S inputs rest) (st1\<lparr>pdb := snd w\<rparr>))"
      using Inr by (simp add: Let_def val_def st1_def w_def split: sum.splits)
    show ?thesis
    proof (cases "fst w = Inr True")
      case False
      then show ?thesis
        unfolding unfold run ic by (auto split: sum.splits)
    next
      case True
      then have "\<forall>c. UpdateBalance_vin HandleError S inputs height rest (st1\<lparr>pdb := snd w\<rparr>)
                       \<noteq> Inl (Crash c)"
        using Cons.prems(2) unfold by simp
      then have "UpdateBalance_vin HandleError S inputs height rest (st1\<lparr>pdb := snd w\<rparr>)
                   = run_changes HandleError height (input_changes S inputs rest) (st1\<lparr>pdb := snd w\<rparr>)"
        using Cons.IH [OF Cons.prems(1)] by simp
      with True show ?thesis
        unfolding unfold run ic by simp
    qed
  qed
qed

lemma vin_skipped:
  "height \<le> 0 \<Longrightarrow> \<forall>c. UpdateBalance_vin HandleError S inputs height txins st \<noteq> Inl (Crash c) \<Longrightarrow>
     UpdateBalance_vin HandleError S inputs height txins st = Inr (True, st)"
proof (induction txins)
  case Nil
  then show ?case by simp
next
  case (Cons txin rest)
  then show ?case
    by (auto simp: Let_def split: option.splits if_splits)
qed

lemma run_changes_append:
  "run_changes HandleError height (xs @ ys) st =
     (case run_changes HandleError height xs st of
        Inl stop \<Rightarrow> Inl stop
      | Inr (through, st1) \<Rightarrow>
          if through then run_changes HandleError height ys st1 else Inr (False, st1))"
  by (induction HandleError height xs st rule: run_changes.induct)
     (simp_all add: Let_def split: sum.splits)

lemma UpdateBalance_run:
  assumes "\<forall>c. UpdateBalance HandleError S C tx inputs height st \<noteq> Inl (Crash c)"
  shows "UpdateBalance HandleError S C tx inputs height st
           = run_changes HandleError height (balance_changes S C tx inputs height) st"
proof (cases "vout tx = []")
  case True
  then show ?thesis by (simp add: UpdateBalance_def balance_changes_def)
next
  case nonempty: False
  show ?thesis
  proof (cases "\<not> C tx \<and> vin tx \<noteq> []")
    case False
    then have "input_changes S inputs (vin tx) = [] \<or> C tx"
      by (auto simp: input_changes_def List.map_filter_simps)
    with False nonempty show ?thesis
      by (auto simp: UpdateBalance_def balance_changes_def vout_run)
  next
    case True
    let ?v = "UpdateBalance_vin HandleError S inputs height (vin tx) st"
    have ub: "UpdateBalance HandleError S C tx inputs height st =
        (case ?v of
           Inl stop \<Rightarrow> Inl stop
         | Inr (through, st1) \<Rightarrow>
             if through then run_changes HandleError height (output_changes S (vout tx)) st1
             else Inr (False, st1))"
      using True nonempty by (auto simp: UpdateBalance_def vout_run split: sum.splits)
    have nc: "\<forall>c. ?v \<noteq> Inl (Crash c)"
    proof (intro allI notI)
      fix c
      assume "?v = Inl (Crash c)"
      then have "UpdateBalance HandleError S C tx inputs height st = Inl (Crash c)"
        by (simp add: ub)
      with assms show False by blast
    qed
    show ?thesis
    proof (cases "0 < height")
      case True
      have "?v = run_changes HandleError height (input_changes S inputs (vin tx)) st"
        using vin_run [OF True nc] .
      with True \<open>\<not> C tx \<and> vin tx \<noteq> []\<close> nonempty show ?thesis
        by (simp add: ub balance_changes_def run_changes_append)
    next
      case False
      then have "?v = Inr (True, st)"
        using vin_skipped [OF _ nc] by simp
      with False nonempty show ?thesis
        by (simp add: ub balance_changes_def)
    qed
  qed
qed


lemma put_outcomes_apply_change:
  "put_outcomes (pdb (apply_change height st change)) = tl (put_outcomes (pdb st))"
  by (simp add: apply_change_def record_balance_def Let_def)

lemma put_outcomes_after_changes:
  "put_outcomes (pdb st) = replicate (length before) None @ rest \<Longrightarrow>
     put_outcomes (pdb (foldl (apply_change height) st before)) = rest"
proof (induction before arbitrary: st)
  case Nil
  then show ?case by simp
next
  case (Cons c before)
  have "put_outcomes (pdb (apply_change height st c)) = replicate (length before) None @ rest"
    using Cons.prems by (simp add: put_outcomes_apply_change)
  then show ?case using Cons.IH by simp
qed

lemma run_changes_refused:
  "put_outcomes (pdb st) = replicate (length before) None @ Some status # later \<Longrightarrow>
   lookups_return HandleError height (before @ [change]) st \<Longrightarrow>
   run_changes HandleError height (before @ change # rest) st =
     (if HandleError status
      then Inl (Throw status (failed_change height (foldl (apply_change height) st before) change))
      else Inr (False, failed_change height (foldl (apply_change height) st before) change))"
proof (induction before arbitrary: st)
  case Nil
  define address where "address = fst change"
  from Nil.prems(2) obtain before where
    gb: "GetBalance HandleError st address (height - 1) = Inr before"
    by (cases "GetBalance HandleError st address (height - 1)") (simp_all add: address_def)
  then have bb: "before = balance_before st address (height - 1)"
    by (rule GetBalance_returns)
  define val where "val = before + snd change"
  define st1 where "st1 = st\<lparr>cacheBalance := (cacheBalance st)(address \<mapsto> val)\<rparr>"
  have po: "put_outcomes (pdb st1) = Some status # later"
    using Nil.prems(1) by (simp add: st1_def)
  have w: "WriteDB HandleError address height val (pdb st1) =
             (if HandleError status then Inl status else Inr False,
              (pdb st)\<lparr>put_outcomes := later\<rparr>)"
    using WriteDB_refused [OF po] by (simp add: st1_def)
  have fc: "failed_change height st change = st1\<lparr>pdb := (pdb st)\<lparr>put_outcomes := later\<rparr>\<rparr>"
    using Nil.prems(1) by (simp add: failed_change_def Let_def address_def val_def st1_def bb)
  have "run_changes HandleError height (change # rest) st =
          (if HandleError status
           then Inl (Throw status (st1\<lparr>pdb := (pdb st)\<lparr>put_outcomes := later\<rparr>\<rparr>))
           else Inr (False, st1\<lparr>pdb := (pdb st)\<lparr>put_outcomes := later\<rparr>\<rparr>))"
    using gb w by (simp add: Let_def address_def [symmetric] val_def st1_def)
  then show ?case by (simp add: fc)
next
  case (Cons c before)
  define address where "address = fst c"
  from Cons.prems(2) obtain b where
    gb: "GetBalance HandleError st address (height - 1) = Inr b"
    by (cases "GetBalance HandleError st address (height - 1)") (simp_all add: address_def)
  then have bb: "b = balance_before st address (height - 1)"
    by (rule GetBalance_returns)
  have lr: "lookups_return HandleError height (before @ [change]) (apply_change height st c)"
    using Cons.prems(2) gb by (simp add: address_def)
  define val where "val = b + snd c"
  define st1 where "st1 = st\<lparr>cacheBalance := (cacheBalance st)(address \<mapsto> val)\<rparr>"
  have po: "put_outcomes (pdb st1) = [] \<or> (\<exists>l. put_outcomes (pdb st1) = None # l)"
    using Cons.prems(1) by (simp add: st1_def)
  have w: "WriteDB HandleError address height val (pdb st1)
             = (Inr True, record_balance address height val (pdb st1))"
    using WriteDB_accepted [OF po] .
  have step: "st1\<lparr>pdb := record_balance address height val (pdb st1)\<rparr> = apply_change height st c"
    by (simp add: apply_change_def Let_def address_def val_def st1_def bb)
  have po': "put_outcomes (pdb (apply_change height st c))
               = replicate (length before) None @ Some status # later"
    using Cons.prems(1) by (simp add: put_outcomes_apply_change)
  have "run_changes HandleError height ((c # before) @ change # rest) st =
          run_changes HandleError height (before @ change # rest)
            (st1\<lparr>pdb := record_balance address height val (pdb st1)\<rparr>)"
    using gb w by (simp add: Let_def address_def [symmetric] val_def st1_def)
  also have "\<dots> = run_changes HandleError height (before @ change # rest) (apply_change height st c)"
    by (simp only: step)
  finally show ?case
    using Cons.IH [OF po' lr] by simp
qed

text \<open>
  The decimal encoding: what \<^verbatim>\<open>WriteDB\<close> stores, \<^verbatim>\<open>ReadDB\<close> reads back, and the keys
  of two records are equal only when their addresses and heights are.
\<close>

lemma digit_val_digit_char: "digit_val (digit_char d) = Some (d mod 10)"
proof -
  have "\<forall>k<10. digit_val (''0123456789'' ! k) = Some k"
    by (simp add: digit_val_def numeral_eq_Suc All_less_Suc)
  then show ?thesis by (simp add: digit_char_def)
qed

lemma digit_char_plain: "\<not> isspace (digit_char d) \<and> digit_char d \<noteq> CHR ''-''
    \<and> digit_char d \<noteq> CHR ''+'' \<and> digit_char d \<noteq> CHR ''_''"
proof -
  have "\<forall>k<10. \<not> isspace (''0123456789'' ! k) \<and> ''0123456789'' ! k \<noteq> CHR ''-''
      \<and> ''0123456789'' ! k \<noteq> CHR ''+'' \<and> ''0123456789'' ! k \<noteq> CHR ''_''"
    by (simp add: isspace_def numeral_eq_Suc All_less_Suc)
  then show ?thesis by (simp add: digit_char_def)
qed

lemma digits_chars: "c \<in> set (digits n) \<Longrightarrow> \<exists>d. c = digit_char d"
proof (induction n rule: digits.induct)
  case (1 n)
  show ?case
  proof (cases "n < 10")
    case True
    with "1.prems" have "c = digit_char n" by (subst (asm) digits.simps) simp
    then show ?thesis by blast
  next
    case False
    with "1.prems" have "c \<in> set (digits (n div 10)) \<or> c = digit_char (n mod 10)"
      by (subst (asm) digits.simps) auto
    with "1.IH" False show ?thesis by auto
  qed
qed

lemma digits_first: "\<exists>d cs. digits n = digit_char d # cs"
proof (induction n rule: digits.induct)
  case (1 n)
  show ?case
  proof (cases "n < 10")
    case True
    then have "digits n = digit_char n # []" by (subst digits.simps) simp
    then show ?thesis by blast
  next
    case False
    with "1.IH" obtain d cs where "digits (n div 10) = digit_char d # cs" by blast
    with False have "digits n = digit_char d # (cs @ [digit_char (n mod 10)])"
      by (subst digits.simps) simp
    then show ?thesis by blast
  qed
qed

lemma accumulate_digits:
  "accumulate a (digits n @ cs) = accumulate (a * 10 ^ length (digits n) + n) cs"
proof (induction n arbitrary: a cs rule: digits.induct)
  case (1 n)
  show ?case
  proof (cases "n < 10")
    case True
    then have d: "digits n = [digit_char n]" by (subst digits.simps) simp
    show ?thesis using True by (simp add: d digit_val_digit_char mult.commute)
  next
    case False
    then have d: "digits n = digits (n div 10) @ [digit_char (n mod 10)]"
      by (subst digits.simps) simp
    have "accumulate a (digits n @ cs)
            = accumulate a (digits (n div 10) @ (digit_char (n mod 10) # cs))"
      by (simp add: d)
    also have "\<dots> = accumulate (a * 10 ^ length (digits (n div 10)) + n div 10)
                        (digit_char (n mod 10) # cs)"
      using "1.IH" [OF False] .
    also have "\<dots> = accumulate (10 * (a * 10 ^ length (digits (n div 10)) + n div 10)
                                  + n mod 10) cs"
      by (simp add: digit_val_digit_char)
    also have "10 * (a * 10 ^ length (digits (n div 10)) + n div 10) + n mod 10
                 = a * 10 ^ length (digits n) + n"
      by (simp add: d algebra_simps)
    finally show ?thesis .
  qed
qed

lemma accumulate_digits_all: "accumulate 0 (digits n) = n"
  using accumulate_digits [of 0 n "[]"] by simp

lemma stream_round_trip_int:
  assumes "- (2 ^ 63) \<le> i" and "i \<le> 2 ^ 63 - 1"
  shows "stream_to_int64 (int_to_stream i) val0 = word_of_int i"
proof -
  obtain d cs where first: "digits (nat \<bar>i\<bar>) = digit_char d # cs"
    using digits_first by blast
  note plain = digit_char_plain [of d]
  have acc: "accumulate 0 (digit_char d # cs) = nat \<bar>i\<bar>"
    using accumulate_digits_all [of "nat \<bar>i\<bar>"] by (simp add: first)
  show ?thesis
  proof (cases "i < 0")
    case True
    then have s: "int_to_stream i = CHR ''-'' # digit_char d # cs"
      using first by (simp add: int_to_stream_def)
    have "\<not> isspace (CHR ''-'')" by (simp add: isspace_def)
    then show ?thesis
      using True assms acc plain
      by (simp add: stream_to_int64_def s Let_def digit_val_digit_char del: accumulate.simps)
  next
    case False
    then have s: "int_to_stream i = digit_char d # cs"
      using first by (simp add: int_to_stream_def)
    show ?thesis
      using False assms acc plain
      by (simp add: stream_to_int64_def s Let_def digit_val_digit_char del: accumulate.simps)
         arith
  qed
qed

lemma stream_round_trip: "stream_to_int64 (int_to_stream (sint (val :: CAmount))) val0 = val"
proof -
  have "- (2 ^ 63) \<le> sint val" "sint val \<le> 2 ^ 63 - 1"
    using sint_ge [of val] sint_lt [of val] by simp_all
  then show ?thesis
    by (simp add: stream_round_trip_int)
qed


lemma digits_inj: "digits m = digits n \<Longrightarrow> m = n"
  by (metis accumulate_digits_all)

lemma split_at_separator:
  "c \<notin> set s \<Longrightarrow> c \<notin> set t \<Longrightarrow> s @ c # xs = t @ c # ys \<Longrightarrow> s = t \<and> xs = ys"
proof (induction s arbitrary: t)
  case Nil
  then show ?case by (cases t) auto
next
  case (Cons a s)
  then show ?case by (cases t) auto
qed

lemma int_to_stream_inj: "int_to_stream i = int_to_stream j \<Longrightarrow> i = j"
proof -
  assume eq: "int_to_stream i = int_to_stream j"
  obtain d cs where di: "digits (nat i) = digit_char d # cs"
    using digits_first by blast
  obtain e es where dj: "digits (nat j) = digit_char e # es"
    using digits_first by blast
  note pd = digit_char_plain [of d] and pe = digit_char_plain [of e]
  show ?thesis
  proof (cases "i < 0")
    case ineg: True
    show ?thesis
    proof (cases "j < 0")
      case True
      with ineg eq have "digits (nat (- i)) = digits (nat (- j))"
        by (simp add: int_to_stream_def)
      then have "nat (- i) = nat (- j)" by (rule digits_inj)
      with ineg True show ?thesis by simp
    next
      case False
      with ineg eq dj pe show ?thesis by (simp add: int_to_stream_def)
    qed
  next
    case ipos: False
    show ?thesis
    proof (cases "j < 0")
      case True
      with ipos eq di pd show ?thesis by (simp add: int_to_stream_def)
    next
      case False
      with ipos eq have "digits (nat i) = digits (nat j)"
        by (simp add: int_to_stream_def)
      then have "nat i = nat j" by (rule digits_inj)
      with ipos False show ?thesis by simp
    qed
  qed
qed

lemma int_to_stream_no_underscore: "CHR ''_'' \<notin> set (int_to_stream h)"
proof
  assume "CHR ''_'' \<in> set (int_to_stream h)"
  then have "CHR ''_'' \<in> set (digits (nat (- h))) \<or> CHR ''_'' \<in> set (digits (nat h))"
    by (auto simp: int_to_stream_def split: if_splits)
  then obtain d where "CHR ''_'' = digit_char d"
    using digits_chars by blast
  with digit_char_plain [of d] show False by simp
qed

lemma balance_key_inj:
  "(address @ CHR ''_'' # int_to_stream h = address' @ CHR ''_'' # int_to_stream h')
     = (address = address' \<and> h = h')"
proof
  assume eq: "address @ CHR ''_'' # int_to_stream h = address' @ CHR ''_'' # int_to_stream h'"
  have "rev (address @ CHR ''_'' # int_to_stream h) = rev (address' @ CHR ''_'' # int_to_stream h')"
    using eq by (rule arg_cong)
  then have r: "rev (int_to_stream h) @ CHR ''_'' # rev address
               = rev (int_to_stream h') @ CHR ''_'' # rev address'"
    by simp
  have n: "CHR ''_'' \<notin> set (rev (int_to_stream h))"
    "CHR ''_'' \<notin> set (rev (int_to_stream h'))"
    using int_to_stream_no_underscore by simp_all
  have "rev (int_to_stream h) = rev (int_to_stream h') \<and> rev address = rev address'"
    using split_at_separator [OF n r] .
  then show "address = address' \<and> h = h'"
    using int_to_stream_inj by simp
next
  assume "address = address' \<and> h = h'"
  then show "address @ CHR ''_'' # int_to_stream h = address' @ CHR ''_'' # int_to_stream h'"
    by simp
qed

lemma WriteDB_then_ReadDB:
  "fst (WriteDB HandleError address height val db) = Inr True \<Longrightarrow>
     ReadDB HandleError' (snd (WriteDB HandleError address height val db)) address height val0
       = Inr (True, val)"
  by (simp add: WriteDB_written record_balance_def ReadDB_def Get_def stream_round_trip)

lemma WriteDB_other_record:
  "(address', height') \<noteq> (address, height) \<Longrightarrow>
     balance_record (snd (WriteDB HandleError address height val db)) address' height'
       = balance_record db address' height'"
  by (auto simp: WriteDB_def Put_def balance_record_def balance_key_inj Let_def
      split: list.splits option.splits)


lemma apply_change_frame:
  "(address' \<noteq> address \<longrightarrow>
      cacheBalance (apply_change height st (address, amount)) address'
        = cacheBalance st address')
   \<and> ((address', height') \<noteq> (address, height) \<longrightarrow>
      balance_record (pdb (apply_change height st (address, amount))) address' height'
        = balance_record (pdb st) address' height')"
  by (auto simp: apply_change_def record_balance_def balance_record_def balance_key_inj Let_def)





text \<open>
  Claim C7, as stated, fails when the error handler throws. In the transfer of the
  example at height 10 the engine accepts the write for A and refuses the write for B
  with an I/O error. With an error handler that throws for that status the call does
  not return failure: it is left by the exception, with 20 cached for A, 30 cached for
  B, A's record written and B's record not written. With an error handler that
  returns, the same call returns false in the same state.
\<close>

theorem UpdateBalance_throw_counterexample:
  "balance_changes (\<lambda>script. script) (\<lambda>tx. False) transfer_A_to_B view_of_A 10
     = [(''A'', - 30), (''B'', 30)]
   \<and> put_outcomes (pdb (balances_at_9 [None, Some IOError])) = [None, Some IOError]
   \<and> (case UpdateBalance (\<lambda>status. True) (\<lambda>script. script) (\<lambda>tx. False) transfer_A_to_B
             view_of_A 10 (balances_at_9 [None, Some IOError]) of
         Inl (Crash c) \<Rightarrow> False
       | Inl (Throw status st') \<Rightarrow>
           status = IOError
           \<and> cacheBalance st' ''A'' = Some 20
           \<and> cacheBalance st' ''B'' = Some 30
           \<and> table (pdb st') ''A_10'' = Found ''20''
           \<and> table (pdb st') ''B_10'' = NotFound
       | Inr r \<Rightarrow> False)
   \<and> (case UpdateBalance (\<lambda>status. False) (\<lambda>script. script) (\<lambda>tx. False) transfer_A_to_B
             view_of_A 10 (balances_at_9 [None, Some IOError]) of
         Inl stop \<Rightarrow> False
       | Inr r \<Rightarrow>
           \<not> fst r
           \<and> cacheBalance (snd r) ''A'' = Some 20
           \<and> cacheBalance (snd r) ''B'' = Some 30
           \<and> table (pdb (snd r)) ''A_10'' = Found ''20''
           \<and> table (pdb (snd r)) ''B_10'' = NotFound)"
proof -
  have "balance_changes (\<lambda>script. script) (\<lambda>tx. False) transfer_A_to_B view_of_A 10
          = [(''A'', - 30), (''B'', 30)]"
    by (simp add: balance_changes_def input_changes_def output_changes_def
        transfer_A_to_B_def view_of_A_def spent_output_def List.map_filter_simps)
  moreover have "put_outcomes (pdb (balances_at_9 [None, Some IOError])) = [None, Some IOError]"
    by (simp add: balances_at_9_def)
  moreover have "case UpdateBalance (\<lambda>status. True) (\<lambda>script. script) (\<lambda>tx. False)
             transfer_A_to_B view_of_A 10 (balances_at_9 [None, Some IOError]) of
         Inl (Crash c) \<Rightarrow> False
       | Inl (Throw status st') \<Rightarrow>
           status = IOError
           \<and> cacheBalance st' ''A'' = Some 20
           \<and> cacheBalance st' ''B'' = Some 30
           \<and> table (pdb st') ''A_10'' = Found ''20''
           \<and> table (pdb st') ''B_10'' = NotFound
       | Inr r \<Rightarrow> False"
    by code_simp
  moreover have "case UpdateBalance (\<lambda>status. False) (\<lambda>script. script) (\<lambda>tx. False)
             transfer_A_to_B view_of_A 10 (balances_at_9 [None, Some IOError]) of
         Inl stop \<Rightarrow> False
       | Inr r \<Rightarrow>
           \<not> fst r
           \<and> cacheBalance (snd r) ''A'' = Some 20
           \<and> cacheBalance (snd r) ''B'' = Some 30
           \<and> table (pdb (snd r)) ''A_10'' = Found ''20''
           \<and> table (pdb (snd r)) ''B_10'' = NotFound"
    by code_simp
  ultimately show ?thesis by blast
qed

text \<open>
  Claim C7, amended. Take a call that does not crash, the changes it has to make, an
  engine that accepts the writes of the first changes and refuses the next one with
  some status, and let the lookups of these changes return. Then the call ends at
  the refused write: when the error handler returns for the status, the call returns
  false; when it throws, the call is left by the exception and returns nothing. In
  both cases the state left is the same: the cache holds the new balance of the
  address whose write failed and, for every other address, what the changes before
  left there, so nothing written to the cache is taken back; the table is as the
  changes before left it; and the engine has seen no write after the refused one, so
  no further input or output is processed.
\<close>

theorem UpdateBalance_write_failure:
  assumes "\<forall>c. UpdateBalance HandleError ScriptPub2Addr IsCoinBase tx inputs height st
                 \<noteq> Inl (Crash c)"
    and "balance_changes ScriptPub2Addr IsCoinBase tx inputs height = before @ change # rest"
    and "put_outcomes (pdb st) = replicate (length before) None @ Some status # later"
    and "lookups_return HandleError height (before @ [change]) st"
  shows "UpdateBalance HandleError ScriptPub2Addr IsCoinBase tx inputs height st =
           (if HandleError status
            then Inl (Throw status
                        (failed_change height (foldl (apply_change height) st before) change))
            else Inr (False,
                      failed_change height (foldl (apply_change height) st before) change))
     \<and> cacheBalance (failed_change height (foldl (apply_change height) st before) change)
           (fst change) =
         Some (balance_before (foldl (apply_change height) st before) (fst change) (height - 1)
               + snd change)
     \<and> (\<forall>address. address = fst change \<or>
           cacheBalance (failed_change height (foldl (apply_change height) st before) change)
               address
             = cacheBalance (foldl (apply_change height) st before) address)
     \<and> table (pdb (failed_change height (foldl (apply_change height) st before) change))
         = table (pdb (foldl (apply_change height) st before))
     \<and> put_outcomes (pdb (failed_change height (foldl (apply_change height) st before) change))
         = later"
proof -
  let ?s1 = "foldl (apply_change height) st before"
  have "UpdateBalance HandleError ScriptPub2Addr IsCoinBase tx inputs height st
          = run_changes HandleError height (before @ change # rest) st"
    using UpdateBalance_run [OF assms(1)] assms(2) by simp
  then have r: "UpdateBalance HandleError ScriptPub2Addr IsCoinBase tx inputs height st =
           (if HandleError status
            then Inl (Throw status (failed_change height ?s1 change))
            else Inr (False, failed_change height ?s1 change))"
    using run_changes_refused [OF assms(3) assms(4), of rest] by simp
  have po: "put_outcomes (pdb ?s1) = Some status # later"
    using put_outcomes_after_changes [OF assms(3)] .
  show ?thesis
    using r po by (simp add: failed_change_def Let_def)
qed

theorem UpdateBalance_write_failure_witness:
  "balance_changes (\<lambda>script. script) (\<lambda>tx. False) transfer_A_to_B view_of_A 10
     = [(''A'', - 30)] @ (''B'', 30) # []
   \<and> put_outcomes (pdb (balances_at_9 [None, Some IOError]))
       = replicate (length [(''A'', - 30 :: CAmount)]) None @ Some IOError # []
   \<and> lookups_return (\<lambda>status. True) 10 ([(''A'', - 30)] @ [(''B'', 30)])
        (balances_at_9 [None, Some IOError])
   \<and> (case UpdateBalance (\<lambda>status. True) (\<lambda>script. script) (\<lambda>tx. False) transfer_A_to_B
             view_of_A 10 (balances_at_9 [None, Some IOError]) of
         Inl (Crash c) \<Rightarrow> False
       | Inl (Throw status st') \<Rightarrow>
           status = IOError
           \<and> cacheBalance st' ''A'' = Some 20
           \<and> cacheBalance st' ''B'' = Some 30
           \<and> table (pdb st') ''A_10'' = Found ''20''
           \<and> table (pdb st') ''B_10'' = NotFound
           \<and> put_outcomes (pdb st') = []
       | Inr r \<Rightarrow> False)
   \<and> (case UpdateBalance (\<lambda>status. False) (\<lambda>script. script) (\<lambda>tx. False) transfer_A_to_B
             view_of_A 10 (balances_at_9 [None, Some IOError]) of
         Inl stop \<Rightarrow> False
       | Inr r \<Rightarrow>
           \<not> fst r
           \<and> cacheBalance (snd r) ''A'' = Some 20
           \<and> cacheBalance (snd r) ''B'' = Some 30
           \<and> table (pdb (snd r)) ''A_10'' = Found ''20''
           \<and> table (pdb (snd r)) ''B_10'' = NotFound
           \<and> put_outcomes (pdb (snd r)) = [])"
proof -
  let ?st = "balances_at_9 [None, Some IOError]"
  let ?throwing = "UpdateBalance (\<lambda>status. True) (\<lambda>script. script) (\<lambda>tx. False)
                     transfer_A_to_B view_of_A 10 ?st"
  let ?returning = "UpdateBalance (\<lambda>status. False) (\<lambda>script. script) (\<lambda>tx. False)
                      transfer_A_to_B view_of_A 10 ?st"
  let ?s1 = "foldl (apply_change 10) ?st [(''A'', - 30)]"
  let ?end = "failed_change 10 ?s1 (''B'', 30)"
  have h2: "balance_changes (\<lambda>script. script) (\<lambda>tx. False) transfer_A_to_B view_of_A 10
              = [(''A'', - 30)] @ (''B'', 30) # []"
    by (simp add: balance_changes_def input_changes_def output_changes_def
        transfer_A_to_B_def view_of_A_def spent_output_def List.map_filter_simps)
  have h3: "put_outcomes (pdb ?st)
              = replicate (length [(''A'', - 30 :: CAmount)]) None @ Some IOError # []"
    by (simp add: balances_at_9_def)
  have h4: "lookups_return H 10 ([(''A'', - 30)] @ [(''B'', 30)]) ?st" for H
    by code_simp
  have c1: "\<forall>c. ?throwing \<noteq> Inl (Crash c)"
  proof -
    have "case ?throwing of Inl (Crash c) \<Rightarrow> False | _ \<Rightarrow> True"
      by code_simp
    then show ?thesis by (auto split: sum.splits stopped.splits)
  qed
  have c2: "\<forall>c. ?returning \<noteq> Inl (Crash c)"
  proof -
    have "case ?returning of Inl (Crash c) \<Rightarrow> False | _ \<Rightarrow> True"
      by code_simp
    then show ?thesis by (auto split: sum.splits stopped.splits)
  qed
  note w1 = UpdateBalance_write_failure [OF c1 h2 h3 h4, THEN conjunct1]
  note w2 = UpdateBalance_write_failure [OF c2 h2 h3 h4, THEN conjunct1]
  have t: "?throwing = Inl (Throw IOError ?end)"
    using w1 by simp
  have r: "?returning = Inr (False, ?end)"
    using w2 by simp
  have a: "cacheBalance ?end ''A'' = Some 20" by code_simp
  have b: "cacheBalance ?end ''B'' = Some 30" by code_simp
  have c: "table (pdb ?end) ''A_10'' = Found ''20''" by code_simp
  have d: "table (pdb ?end) ''B_10'' = NotFound" by code_simp
  have e: "put_outcomes (pdb ?end) = []" by code_simp
  show ?thesis
    using h2 h3 h4 [of "\<lambda>status. True"] a b c d e by (simp add: t r)
qed

text \<open>
  Claim C10. When the transaction has no output the call returns true and leaves the
  cache and the engine as they were, whatever its inputs. At height 0, and at any
  height below, a call that returns gives the result of the same call for the
  transaction without its inputs: the inputs change nothing. The same holds of a call
  that is left by an exception: whenever the call does not crash, it ends as the call
  for the transaction without its inputs ends.
\<close>

theorem UpdateBalance_skips:
  "(vout tx = [] \<longrightarrow>
      UpdateBalance HandleError ScriptPub2Addr IsCoinBase tx inputs height st = Inr (True, st))
   \<and> (height \<le> 0 \<longrightarrow>
        UpdateBalance HandleError ScriptPub2Addr IsCoinBase tx inputs height st = Inr r \<longrightarrow>
        UpdateBalance HandleError ScriptPub2Addr IsCoinBase (tx\<lparr>vin := []\<rparr>) inputs height st
          = Inr r)
   \<and> (height \<le> 0 \<longrightarrow>
        (\<forall>c. UpdateBalance HandleError ScriptPub2Addr IsCoinBase tx inputs height st
               \<noteq> Inl (Crash c)) \<longrightarrow>
        UpdateBalance HandleError ScriptPub2Addr IsCoinBase (tx\<lparr>vin := []\<rparr>) inputs height st
          = UpdateBalance HandleError ScriptPub2Addr IsCoinBase tx inputs height st)"
proof (intro conjI impI)
  assume "vout tx = []"
  then show "UpdateBalance HandleError ScriptPub2Addr IsCoinBase tx inputs height st
               = Inr (True, st)"
    by (simp add: UpdateBalance_def)
next
  assume low: "height \<le> 0"
    and ret: "UpdateBalance HandleError ScriptPub2Addr IsCoinBase tx inputs height st = Inr r"
  have nc: "\<forall>c. UpdateBalance HandleError ScriptPub2Addr IsCoinBase tx inputs height st
               \<noteq> Inl (Crash c)"
    using ret by simp
  have "Inr r = run_changes HandleError height
                  (balance_changes ScriptPub2Addr IsCoinBase tx inputs height) st"
    using UpdateBalance_run [OF nc] ret by simp
  then have "Inr r = (if vout tx = [] then Inr (True, st)
                  else run_changes HandleError height (output_changes ScriptPub2Addr (vout tx)) st)"
    using low by (simp add: balance_changes_def)
  then show "UpdateBalance HandleError ScriptPub2Addr IsCoinBase (tx\<lparr>vin := []\<rparr>) inputs
               height st = Inr r"
    by (simp add: UpdateBalance_def vout_run)
next
  assume low: "height \<le> 0"
    and nc: "\<forall>c. UpdateBalance HandleError ScriptPub2Addr IsCoinBase tx inputs height st
               \<noteq> Inl (Crash c)"
  have "UpdateBalance HandleError ScriptPub2Addr IsCoinBase tx inputs height st
          = run_changes HandleError height
              (balance_changes ScriptPub2Addr IsCoinBase tx inputs height) st"
    using UpdateBalance_run [OF nc] .
  also have "\<dots> = (if vout tx = [] then Inr (True, st)
                  else run_changes HandleError height (output_changes ScriptPub2Addr (vout tx)) st)"
    using low by (simp add: balance_changes_def)
  also have "\<dots> = UpdateBalance HandleError ScriptPub2Addr IsCoinBase (tx\<lparr>vin := []\<rparr>) inputs
                     height st"
    by (simp add: UpdateBalance_def vout_run)
  finally show "UpdateBalance HandleError ScriptPub2Addr IsCoinBase (tx\<lparr>vin := []\<rparr>) inputs
                  height st
                = UpdateBalance HandleError ScriptPub2Addr IsCoinBase tx inputs height st"
    by simp
qed

theorem UpdateBalance_skips_witness:
  "vout (transfer_A_to_B\<lparr>vout := []\<rparr>) = []
   \<and> UpdateBalance (\<lambda>status. True) (\<lambda>script. script) (\<lambda>tx. False)
        (transfer_A_to_B\<lparr>vout := []\<rparr>) view_of_A 10 (balances_at_9 [])
       = Inr (True, balances_at_9 [])
   \<and> (0::int) \<le> 0
   \<and> UpdateBalance (\<lambda>status. True) (\<lambda>script. script) (\<lambda>tx. False)
        (transfer_A_to_B\<lparr>vin := []\<rparr>) view_of_A 0 (balances_at_9 [])
      = UpdateBalance (\<lambda>status. True) (\<lambda>script. script) (\<lambda>tx. False) transfer_A_to_B
          view_of_A 0 (balances_at_9 [])
   \<and> (case UpdateBalance (\<lambda>status. True) (\<lambda>script. script) (\<lambda>tx. False) transfer_A_to_B
             view_of_A 0 (balances_at_9 []) of
         Inl stop \<Rightarrow> False
       | Inr r \<Rightarrow> fst r \<and> cacheBalance (snd r) ''A'' = None
                  \<and> cacheBalance (snd r) ''B'' = Some 30
                  \<and> table (pdb (snd r)) ''A_0'' = NotFound
                  \<and> table (pdb (snd r)) ''B_0'' = Found ''30'')"
proof -
  let ?call = "UpdateBalance (\<lambda>status. True) (\<lambda>script. script) (\<lambda>tx. False) transfer_A_to_B
                 view_of_A 0 (balances_at_9 [])"
  have e: "vout (transfer_A_to_B\<lparr>vout := []\<rparr>) = []" by simp
  have p: "case ?call of
         Inl stop \<Rightarrow> False
       | Inr r \<Rightarrow> fst r \<and> cacheBalance (snd r) ''A'' = None
                  \<and> cacheBalance (snd r) ''B'' = Some 30
                  \<and> table (pdb (snd r)) ''A_0'' = NotFound
                  \<and> table (pdb (snd r)) ''B_0'' = Found ''30''"
    by code_simp
  then obtain r where ret: "?call = Inr r"
    by (cases ?call) auto
  note t1 = UpdateBalance_skips [of "transfer_A_to_B\<lparr>vout := []\<rparr>" "\<lambda>status. True"
      "\<lambda>script. script" "\<lambda>tx. False" view_of_A 10 "balances_at_9 []",
      THEN conjunct1, rule_format, OF e]
  note t2 = UpdateBalance_skips [of transfer_A_to_B "\<lambda>status. True" "\<lambda>script. script"
      "\<lambda>tx. False" view_of_A 0 "balances_at_9 []" r, THEN conjunct2, THEN conjunct1,
      rule_format, OF _ ret]
  show ?thesis
    using t1 t2 p ret by simp
qed

end
